theory Spec2Isabelle
  imports Complex_Main
begin

section \<open>Python strings\<close>

text \<open>
  A Python \<open>str\<close> is a sequence of Unicode code points; it is modelled as a list of
  natural numbers, one per code point, so that \<open>length\<close> counts what Python's \<open>len\<close> counts.
  \<open>ustr\<close> turns an ASCII literal into such a list.
\<close>

type_synonym pystr = "nat list"

definition ustr :: "string \<Rightarrow> pystr" where
  "ustr s = map of_char s"

definition LF :: nat where "LF = 10"
definition CR :: nat where "CR = 13"

text \<open>
  The line boundaries of \<open>str.splitlines\<close>, as code points: LF, VT, FF, CR, the
  separators FS, GS and RS (28 to 30), NEL (133), and the line and paragraph separators
  U+2028 and U+2029.
\<close>

definition is_linebreak :: "nat \<Rightarrow> bool" where
  "is_linebreak c = (c \<in> {10, 11, 12, 13, 28, 29, 30, 133, 8232, 8233})"

text \<open>
  The whitespace of \<open>str.strip()\<close> and of \<open>\s\<close> in a \<open>str\<close> pattern (both ask
  \<open>Py_UNICODE_ISSPACE\<close>): TAB to CR (9 to 13), FS to US (28 to 31), the space, NEL (133),
  the no-break space (160), U+1680, U+2000 to U+200A, U+2028, U+2029, U+202F, U+205F and
  U+3000.
\<close>

definition isspace :: "nat \<Rightarrow> bool" where
  "isspace c = ((9 \<le> c \<and> c \<le> 13) \<or> (28 \<le> c \<and> c \<le> 32) \<or> c = 133 \<or> c = 160
      \<or> c = 5760 \<or> (8192 \<le> c \<and> c \<le> 8202) \<or> c = 8232 \<or> c = 8233 \<or> c = 8239
      \<or> c = 8287 \<or> c = 12288)"

text \<open>The class \<open>[0-9]\<close>.\<close>

definition is_digit :: "nat \<Rightarrow> bool" where
  "is_digit c = (48 \<le> c \<and> c \<le> 57)"

text \<open>
  \<open>str.splitlines()\<close>: the text is cut at every line boundary, \<open>\r\n\<close> counting as one;
  the boundaries are dropped, and what follows the last boundary is a line only when it
  is not empty. The first argument is the line read so far.
\<close>

fun splitlines_from :: "pystr \<Rightarrow> pystr \<Rightarrow> pystr list" where
  "splitlines_from line [] = (if line = [] then [] else [line])"
| "splitlines_from line (c # cs) =
     (if c = CR then
        (case cs of
           [] \<Rightarrow> [line]
         | d # ds \<Rightarrow> if d = LF then line # splitlines_from [] ds
                    else line # splitlines_from [] cs)
      else if is_linebreak c then line # splitlines_from [] cs
      else splitlines_from (line @ [c]) cs)"

definition splitlines :: "pystr \<Rightarrow> pystr list" where
  "splitlines s = splitlines_from [] s"

text \<open>\<open>str.strip()\<close> with no argument: whitespace is removed at both ends.\<close>

definition strip :: "pystr \<Rightarrow> pystr" where
  "strip s = rev (dropWhile isspace (rev (dropWhile isspace s)))"

text \<open>\<open>"\n".join(out)\<close>.\<close>

fun join_nl :: "pystr list \<Rightarrow> pystr" where
  "join_nl [] = []"
| "join_nl [x] = x"
| "join_nl (x # y # ys) = x @ LF # join_nl (y # ys)"

section \<open>The list-boundary normalizer\<close>

text \<open>
  \<open>list_start_re.match(line)\<close> for the pattern \<open>^\s*(?:[-+*]|[0-9]+[.)])\s+\<close>: after the
  leading whitespace comes a bullet \<open>-\<close>, \<open>+\<close> or \<open>*\<close>, or a run of digits and then \<open>.\<close> or
  \<open>)\<close>; a whitespace character follows. No marker character is whitespace and neither
  \<open>.\<close> nor \<open>)\<close> is a digit, so the greedy runs are the only way to match.
\<close>

definition list_start_match :: "pystr \<Rightarrow> bool" where
  "list_start_match line =
     (case dropWhile isspace line of
        [] \<Rightarrow> False
      | c # cs \<Rightarrow>
          if c = 45 \<or> c = 43 \<or> c = 42 then (case cs of [] \<Rightarrow> False | e # _ \<Rightarrow> isspace e)
          else if is_digit c then
            (case dropWhile is_digit cs of
               d # e # _ \<Rightarrow> (d = 46 \<or> d = 41) \<and> isspace e
             | _ \<Rightarrow> False)
          else False)"

text \<open>
  The body of the \<open>for\<close> loop, run over the remaining lines; the state is the list \<open>out\<close>
  and the flag \<open>prev_blank\<close>.
\<close>

fun nlb_loop :: "pystr list \<Rightarrow> pystr list \<times> bool \<Rightarrow> pystr list \<times> bool" where
  "nlb_loop [] st = st"
| "nlb_loop (line # rest) (out, prev_blank) =
     (let is_list_item = list_start_match line;
          out1 = (if is_list_item \<and> \<not> prev_blank then out @ [[]] else out);
          out2 = out1 @ [line]
      in nlb_loop rest (out2, strip line = []))"

text \<open>The list \<open>out\<close> as it is when the function returns.\<close>

definition out_lines :: "pystr \<Rightarrow> pystr list" where
  "out_lines md_text =
     (let lines = splitlines md_text;
          out = fst (nlb_loop lines ([], True))
      in if out \<noteq> [] \<and> last out \<noteq> [] then out @ [[]] else out)"

definition normalize_list_boundaries :: "pystr \<Rightarrow> pystr" where
  "normalize_list_boundaries md_text = join_nl (out_lines md_text)"


section \<open>Notions used in the proofs about the normalizer\<close>

text \<open>
  A list of lines is separated when no list item follows a non-blank line; the flag says
  whether the line before the list was blank.
\<close>

fun separated :: "bool \<Rightarrow> pystr list \<Rightarrow> bool" where
  "separated prev_blank [] = True"
| "separated prev_blank (l # ls) =
     (\<not> (list_start_match l \<and> \<not> prev_blank) \<and> separated (strip l = []) ls)"

definition no_linebreak :: "pystr \<Rightarrow> bool" where
  "no_linebreak l = (\<forall>c \<in> set l. \<not> is_linebreak c)"

definition drop_last_empty :: "pystr list \<Rightarrow> pystr list" where
  "drop_last_empty ls = (if ls \<noteq> [] \<and> last ls = [] then butlast ls else ls)"

definition two_trailing_empty :: "pystr list \<Rightarrow> bool" where
  "two_trailing_empty ls = (case rev ls of a # b # _ \<Rightarrow> a = [] \<and> b = [] | _ \<Rightarrow> False)"


text \<open>A text ends with exactly one newline character.\<close>

definition one_trailing_newline :: "pystr \<Rightarrow> bool" where
  "one_trailing_newline r =
     (case rev r of
        [] \<Rightarrow> False
      | c # cs \<Rightarrow> c = LF \<and> (case cs of [] \<Rightarrow> True | d # ds \<Rightarrow> d \<noteq> LF))"

text \<open>
  The lines for which the normalizer returns such a text: one of the last two lines is
  not empty, or the lines are two empty lines.
\<close>

definition single_newline_lines :: "pystr list \<Rightarrow> bool" where
  "single_newline_lines ls =
     (case rev ls of
        [] \<Rightarrow> False
      | a # bs \<Rightarrow> (case bs of [] \<Rightarrow> a \<noteq> [] | b # cs \<Rightarrow> a \<noteq> [] \<or> b \<noteq> [] \<or> cs = []))"

section \<open>The journal document\<close>

text \<open>
  The value that \<open>json.load\<close> returns. An object is an association list with distinct
  keys, as a Python \<open>dict\<close> has; a float carries the value of the parsed number (the
  literals \<open>NaN\<close> and \<open>Infinity\<close>, which \<open>json.load\<close> accepts too, are left out).
\<close>

datatype json =
    JNull
  | JBool bool
  | JInt int
  | JFloat real
  | JStr pystr
  | JArr "json list"
  | JObj "(pystr \<times> json) list"

datatype pyerror = AttributeError | TypeError | KeyError | IndexError | FormatError

text \<open>An exception ends the run: the rest of a computation is skipped.\<close>

definition bind :: "pyerror + 'a \<Rightarrow> ('a \<Rightarrow> pyerror + 'b) \<Rightarrow> pyerror + 'b" where
  "bind m f = (case m of Inl e \<Rightarrow> Inl e | Inr v \<Rightarrow> f v)"

text \<open>The truth value of an object, as \<open>if x\<close>, \<open>x and y\<close> and \<open>x or y\<close> take it.\<close>

fun truthy :: "json \<Rightarrow> bool" where
  "truthy JNull = False"
| "truthy (JBool b) = b"
| "truthy (JInt i) = (i \<noteq> 0)"
| "truthy (JFloat r) = (r \<noteq> 0)"
| "truthy (JStr s) = (s \<noteq> [])"
| "truthy (JArr xs) = (xs \<noteq> [])"
| "truthy (JObj kvs) = (kvs \<noteq> [])"

text \<open>
  \<open>d.get(key, default)\<close>; \<open>d.get(key)\<close> is \<open>dict_get d key JNull\<close>. Only a \<open>dict\<close> has the
  method.
\<close>

definition dict_get :: "json \<Rightarrow> pystr \<Rightarrow> json \<Rightarrow> pyerror + json" where
  "dict_get d key dflt =
     (case d of
        JObj kvs \<Rightarrow> Inr (case map_of kvs key of None \<Rightarrow> dflt | Some v \<Rightarrow> v)
      | _ \<Rightarrow> Inl AttributeError)"

text \<open>\<open>data["entries"]\<close>.\<close>

definition subscript :: "json \<Rightarrow> pystr \<Rightarrow> pyerror + json" where
  "subscript d key =
     (case d of
        JObj kvs \<Rightarrow> (case map_of kvs key of None \<Rightarrow> Inl KeyError | Some v \<Rightarrow> Inr v)
      | _ \<Rightarrow> Inl TypeError)"

text \<open>
  The items that a \<open>for\<close> loop takes from an object: the elements of a list, the keys of a
  \<open>dict\<close>, the characters of a \<open>str\<close>; nothing else can be iterated.
\<close>

definition iterate :: "json \<Rightarrow> pyerror + json list" where
  "iterate v =
     (case v of
        JArr xs \<Rightarrow> Inr xs
      | JObj kvs \<Rightarrow> Inr (map (\<lambda>kv. JStr (fst kv)) kvs)
      | JStr s \<Rightarrow> Inr (map (\<lambda>c. JStr [c]) s)
      | _ \<Rightarrow> Inl TypeError)"

text \<open>\<open>sep.join(xs)\<close>: every item has to be a \<open>str\<close>.\<close>

fun join_strs :: "pystr \<Rightarrow> json list \<Rightarrow> pyerror + pystr" where
  "join_strs sep [] = Inr []"
| "join_strs sep [x] = (case x of JStr s \<Rightarrow> Inr s | _ \<Rightarrow> Inl TypeError)"
| "join_strs sep (x # y # ys) =
     (case x of
        JStr s \<Rightarrow> bind (join_strs sep (y # ys)) (\<lambda>r. Inr (s @ sep @ r))
      | _ \<Rightarrow> Inl TypeError)"

text \<open>\<open>s.replace(old, new)\<close> for a one-character \<open>old\<close>.\<close>

definition replace_char :: "nat \<Rightarrow> pystr \<Rightarrow> pystr \<Rightarrow> pystr" where
  "replace_char old new s = concat (map (\<lambda>c. if c = old then new else [c]) s)"

text \<open>
  A timezone-aware \<open>datetime\<close>: the instant, in seconds, and the zone it is shown in.
  Python compares two of them by their instants.
\<close>

record local_date =
  instant :: int
  zone :: pystr

text \<open>
  What the converter takes from the standard library, from \<open>pytz\<close>, from \<open>markdown\<close> and
  from the file system:
  \<^item> \<open>strptime\<close>: \<open>datetime.strptime(date_str, "%Y-%m-%dT%H:%M:%SZ")\<close> read as UTC, the
    instant, or nothing when the call raises;
  \<^item> \<open>timezone\<close>: \<open>pytz.timezone(timeZone)\<close>, the zone, or nothing when the call raises;
  \<^item> \<open>representable\<close>: whether the instant, shown in the zone, is a \<open>datetime\<close>
    (\<open>astimezone\<close> raises \<open>OverflowError\<close> otherwise);
  \<^item> \<open>strftime\<close>: the format and the date give the text;
  \<^item> \<open>markdown\<close>: \<open>markdown.markdown(text, extensions=["extra", "sane_lists"])\<close>;
  \<^item> \<open>format_1f\<close>: \<open>format(x, ".1f")\<close>, which raises for an object that is not a number;
  \<^item> \<open>str_of\<close>: \<open>str(x)\<close> for an object that is not a \<open>str\<close>;
  \<^item> \<open>path_join\<close>, \<open>path_exists\<close>, \<open>abspath\<close>, \<open>os_sep\<close>: \<open>os.path.join\<close>, \<open>os.path.exists\<close>,
    \<open>os.path.abspath\<close> and \<open>os.sep\<close>.
\<close>

record pylib =
  strptime :: "json \<Rightarrow> int option"
  timezone :: "json \<Rightarrow> pystr option"
  representable :: "int \<Rightarrow> pystr \<Rightarrow> bool"
  strftime :: "pystr \<Rightarrow> local_date \<Rightarrow> pystr"
  markdown :: "pystr \<Rightarrow> pystr"
  format_1f :: "json \<Rightarrow> pyerror + pystr"
  str_of :: "json \<Rightarrow> pystr"
  path_join :: "pystr \<Rightarrow> pystr \<Rightarrow> pystr"
  path_exists :: "pystr \<Rightarrow> bool"
  abspath :: "pystr \<Rightarrow> pystr"
  os_sep :: nat

text \<open>The text that an f-string puts in the place of \<open>{x}\<close>.\<close>

definition fstr :: "pylib \<Rightarrow> json \<Rightarrow> pystr" where
  "fstr lib v = (case v of JStr s \<Rightarrow> s | _ \<Rightarrow> str_of lib v)"

text \<open>\<open>pytz.UTC\<close>.\<close>

definition UTC :: pystr where
  "UTC = ustr ''UTC''"

text \<open>
  \<open>date.astimezone(local_timezone)\<close> for a \<open>date\<close> in UTC: the same instant in the other
  zone. Nothing is computed when the zone is UTC itself.
\<close>

definition astimezone :: "pylib \<Rightarrow> int \<Rightarrow> pystr \<Rightarrow> local_date option" where
  "astimezone lib date tz =
     (if tz = UTC \<or> representable lib date tz then Some \<lparr>instant = date, zone = tz\<rparr>
      else None)"

section \<open>The metadata of an entry\<close>

text \<open>
  The \<open>try\<close> block that formats the date. The result is the value of \<open>date_fmt\<close> and the
  date appended to \<open>dates\<close>, if one is. Any exception leaves \<open>dates\<close> as it was and makes
  \<open>date_fmt\<close> the raw \<open>date_str\<close>. The entry is a \<open>dict\<close> when the block is reached.
\<close>

definition format_date :: "pylib \<Rightarrow> json \<Rightarrow> json \<Rightarrow> json \<times> local_date option" where
  "format_date lib entry date_str =
     (case strptime lib date_str of
        None \<Rightarrow> (date_str, None)
      | Some date \<Rightarrow>
          (case dict_get entry (ustr ''timeZone'') JNull of
             Inl e \<Rightarrow> (date_str, None)
           | Inr timeZone \<Rightarrow>
               (case (if truthy timeZone then timezone lib timeZone else Some UTC) of
                  None \<Rightarrow> (date_str, None)
                | Some local_timezone \<Rightarrow>
                    (case astimezone lib date local_timezone of
                       None \<Rightarrow> (date_str, None)
                     | Some local_date \<Rightarrow>
                         (JStr (strftime lib (ustr ''%d %b %Y %I:%M %p'') local_date),
                          Some local_date)))))"

text \<open>The location link.\<close>

definition location_html :: "pylib \<Rightarrow> json \<Rightarrow> pyerror + pystr" where
  \<open>location_html lib entry =
     bind (dict_get entry (ustr ''location'') (JObj [])) (\<lambda>loc.
     bind (dict_get loc (ustr ''latitude'') JNull) (\<lambda>lat.
     bind (dict_get loc (ustr ''longitude'') JNull) (\<lambda>lng.
     bind (dict_get loc (ustr ''placeName'') (JStr [])) (\<lambda>place.
     bind (dict_get loc (ustr ''localityName'') (JStr [])) (\<lambda>locality.
     bind (dict_get loc (ustr ''country'') (JStr [])) (\<lambda>country.
       if truthy lat \<and> truthy lng then
         bind (join_strs (ustr '', '') (filter truthy [place, locality, country]))
           (\<lambda>location_text.
              let maps_url = ustr ''https://www.google.com/maps?q='' @ fstr lib lat
                    @ ustr '','' @ fstr lib lng
              in Inr (ustr ''<p class="muted-text">''
                    @ ustr ''<p><i class="bi bi-geo-alt-fill text-danger"></i> ''
                    @ ustr ''<a href="'' @ maps_url @ ustr ''" target="_blank">''
                    @ location_text @ ustr ''</a></p>''))
       else Inr []))))))\<close>

text \<open>The weather line; the degree sign is the code point 176.\<close>

definition wx_line :: "pylib \<Rightarrow> json \<Rightarrow> pyerror + json" where
  "wx_line lib entry =
     bind (dict_get entry (ustr ''weather'') (JObj [])) (\<lambda>weather_info.
     bind (dict_get weather_info (ustr ''temperatureCelsius'') JNull) (\<lambda>wx_temp.
     bind (dict_get weather_info (ustr ''conditionsDescription'') JNull) (\<lambda>wx_description.
       if wx_temp \<noteq> JNull \<and> truthy wx_description then
         bind (format_1f lib wx_temp)
           (\<lambda>t. Inr (JStr (t @ [176] @ ustr ''C, '' @ fstr lib wx_description)))
       else if wx_temp \<noteq> JNull then
         bind (format_1f lib wx_temp) (\<lambda>t. Inr (JStr (t @ [176] @ ustr ''C'')))
       else if truthy wx_description then Inr wx_description
       else Inr (JStr []))))"

section \<open>The media of an entry\<close>

text \<open>The identifier of a media reference: \<open>ref.get("md5") or ref.get("identifier")\<close>.\<close>

definition media_filename :: "json \<Rightarrow> pyerror + json" where
  "media_filename ref =
     bind (dict_get ref (ustr ''md5'') JNull) (\<lambda>md5.
       if truthy md5 then Inr md5 else dict_get ref (ustr ''identifier'') JNull)"

text \<open>
  The inner \<open>for\<close> loop over the extensions, up to its \<open>break\<close>: the path of the first
  candidate that exists, if any. Each extension comes with what the loop body needs
  besides (the MIME type of a video).
\<close>

fun first_existing :: "pylib \<Rightarrow> pystr \<Rightarrow> pystr \<Rightarrow> (pystr \<times> 'a) list \<Rightarrow> (pystr \<times> 'a) option" where
  "first_existing lib dir filename [] = None"
| "first_existing lib dir filename ((ext, x) # exts) =
     (let path = path_join lib dir (filename @ ext)
      in if path_exists lib path then Some (path, x)
         else first_existing lib dir filename exts)"

definition nl :: "nat \<Rightarrow> pystr" where
  "nl n = LF # replicate n 32"

text \<open>The element appended to \<open>media_html\<close> for a photo; 39 is the single quote, 92 the backslash.\<close>

definition photo_html :: "pylib \<Rightarrow> pystr \<Rightarrow> pystr" where
  \<open>photo_html lib path =
     (let url = ustr ''file:///'' @ replace_char (os_sep lib) (ustr ''/'') (abspath lib path);
          safe_url = replace_char 39 [92, 39] url
      in nl 28 @ ustr ''<div class="col-md-4">''
       @ nl 28 @ ustr ''<img src="'' @ url @ ustr ''" class="img-fluid rounded mb-3"''
       @ nl 32 @ ustr ''alt="Photo"''
       @ nl 32 @ ustr ''data-bs-toggle="modal"''
       @ nl 32 @ ustr ''data-bs-target="#photoModal"''
       @ nl 32 @ ustr ''onclick="document.getElementById('' @ [39] @ ustr ''modalImage'' @ [39]
       @ ustr '').src='' @ [39] @ safe_url @ [39] @ ustr ''">''
       @ nl 28 @ ustr ''</div>''
       @ nl 28)\<close>

definition photo_exts :: "(pystr \<times> unit) list" where
  "photo_exts = [(ustr ''.jpg'', ()), (ustr ''.jpeg'', ()), (ustr ''.png'', ())]"

text \<open>
  The loop over the photos of an entry; \<open>media_html\<close> is the list built so far. An
  identifier that is not a \<open>str\<close> cannot be added to the extension.
\<close>

fun photos_loop :: "pylib \<Rightarrow> pystr \<Rightarrow> json list \<Rightarrow> pystr list \<Rightarrow> pyerror + pystr list" where
  "photos_loop lib photos_dir [] media_html = Inr media_html"
| "photos_loop lib photos_dir (photo # rest) media_html =
     bind (media_filename photo) (\<lambda>filename.
       if truthy filename then
         (case filename of
            JStr name \<Rightarrow>
              (case first_existing lib photos_dir name photo_exts of
                 Some (path, u) \<Rightarrow>
                   photos_loop lib photos_dir rest (media_html @ [photo_html lib path])
               | None \<Rightarrow> photos_loop lib photos_dir rest media_html)
          | _ \<Rightarrow> Inl TypeError)
       else photos_loop lib photos_dir rest media_html)"

definition mime_map :: "(pystr \<times> pystr) list" where
  "mime_map = [(ustr ''.mp4'', ustr ''video/mp4''), (ustr ''.mov'', ustr ''video/mp4''),
     (ustr ''.webm'', ustr ''video/webm'')]"

definition video_html :: "pystr \<Rightarrow> pystr \<Rightarrow> pystr" where
  \<open>video_html path mime =
     ustr ''<div class="col-md-6"><video controls class="w-100 mb-3">''
     @ ustr ''<source src="'' @ path @ ustr ''" type="'' @ mime @ ustr ''">''
     @ ustr ''Your browser does not support the video tag.</video></div>''\<close>

fun videos_loop :: "pylib \<Rightarrow> pystr \<Rightarrow> json list \<Rightarrow> pystr list \<Rightarrow> pyerror + pystr list" where
  "videos_loop lib videos_dir [] media_html = Inr media_html"
| "videos_loop lib videos_dir (video # rest) media_html =
     bind (media_filename video) (\<lambda>filename.
       if truthy filename then
         (case filename of
            JStr name \<Rightarrow>
              (case first_existing lib videos_dir name mime_map of
                 Some (path, mime) \<Rightarrow>
                   videos_loop lib videos_dir rest (media_html @ [video_html path mime])
               | None \<Rightarrow> videos_loop lib videos_dir rest media_html)
          | _ \<Rightarrow> Inl TypeError)
       else videos_loop lib videos_dir rest media_html)"

definition audio_html :: "pystr \<Rightarrow> pystr" where
  \<open>audio_html path =
     ustr ''<div class="col-md-6"><audio controls class="w-100 mb-3">''
     @ ustr ''<source src="'' @ path @ ustr ''" type="audio/mp4">''
     @ ustr ''Your browser does not support the audio element.</audio></div>''\<close>

fun audios_loop :: "pylib \<Rightarrow> pystr \<Rightarrow> json list \<Rightarrow> pystr list \<Rightarrow> pyerror + pystr list" where
  "audios_loop lib audio_dir [] media_html = Inr media_html"
| "audios_loop lib audio_dir (audio # rest) media_html =
     bind (media_filename audio) (\<lambda>filename.
       if truthy filename then
         (case filename of
            JStr name \<Rightarrow>
              (let path = path_join lib audio_dir (name @ ustr ''.m4a'')
               in if path_exists lib path
                  then audios_loop lib audio_dir rest (media_html @ [audio_html path])
                  else audios_loop lib audio_dir rest media_html)
          | _ \<Rightarrow> Inl TypeError)
       else audios_loop lib audio_dir rest media_html)"

text \<open>The three loops in turn, and the row that wraps what they found.\<close>

definition media_block :: "pylib \<Rightarrow> pystr \<Rightarrow> pystr \<Rightarrow> pystr \<Rightarrow> json \<Rightarrow> pyerror + pystr" where
  \<open>media_block lib photos_dir videos_dir audio_dir entry =
     bind (dict_get entry (ustr ''photos'') (JArr [])) (\<lambda>photos.
     bind (iterate photos) (\<lambda>photo_list.
     bind (photos_loop lib photos_dir photo_list []) (\<lambda>media1.
     bind (dict_get entry (ustr ''videos'') (JArr [])) (\<lambda>videos.
     bind (iterate videos) (\<lambda>video_list.
     bind (videos_loop lib videos_dir video_list media1) (\<lambda>media2.
     bind (dict_get entry (ustr ''audios'') (JArr [])) (\<lambda>audios.
     bind (iterate audios) (\<lambda>audio_list.
     bind (audios_loop lib audio_dir audio_list media2) (\<lambda>media_html.
       if media_html \<noteq> []
       then Inr (ustr ''<div class="row">'' @ concat media_html @ ustr ''</div>'')
       else Inr [])))))))))\<close>

section \<open>The entries and the document\<close>

text \<open>
  The card of an entry, its line in the table of contents and the page are fixed
  templates. The model keeps the values that fill their holes: for an entry the values of
  \<open>date_fmt\<close>, \<open>preview\<close>, \<open>location_html\<close>, \<open>wx_line\<close>, \<open>text_html\<close> and \<open>media_block\<close>, for the
  page the value of \<open>date_range_str\<close> and the entries in their order.
\<close>

record entry_parts =
  part_date_fmt :: json
  part_preview :: pystr
  part_location_html :: pystr
  part_wx_line :: json
  part_text_html :: pystr
  part_media_block :: pystr

record document =
  doc_date_range :: pystr
  doc_entries :: "entry_parts list"

text \<open>\<open>re.sub(r'^#+\s*', '', preview)\<close>; 35 is the hash sign.\<close>

definition strip_heading :: "pystr \<Rightarrow> pystr" where
  "strip_heading preview =
     (case preview of
        [] \<Rightarrow> []
      | c # cs \<Rightarrow> if c = 35 then dropWhile isspace (dropWhile (\<lambda>x. x = 35) cs) else preview)"

text \<open>
  The body of the loop over the entries, for the entry with the number \<open>i\<close>: the parts of
  the entry and the date that the entry adds to \<open>dates\<close>, if it adds one.
\<close>

definition render_entry ::
  "pylib \<Rightarrow> pystr \<Rightarrow> pystr \<Rightarrow> pystr \<Rightarrow> nat \<Rightarrow> json \<Rightarrow> pyerror + (entry_parts \<times> local_date option)" where
  "render_entry lib photos_dir videos_dir audio_dir i entry =
     bind (dict_get entry (ustr ''text'') (JStr [])) (\<lambda>t.
     bind (case t of JStr s \<Rightarrow> Inr (strip s) | _ \<Rightarrow> Inl AttributeError) (\<lambda>text.
     bind (dict_get entry (ustr ''creationDate'') (JStr [])) (\<lambda>date_str.
       let (date_fmt, new_date) = format_date lib entry date_str;
           normalized = normalize_list_boundaries text;
           text_html = markdown lib normalized
       in
     bind (if text \<noteq> []
           then (case splitlines text of [] \<Rightarrow> Inl IndexError | line # _ \<Rightarrow> Inr line)
           else Inr (ustr ''Entry '' @ str_of lib (JInt (int i)))) (\<lambda>preview.
     bind (location_html lib entry) (\<lambda>location.
     bind (wx_line lib entry) (\<lambda>wx.
     bind (media_block lib photos_dir videos_dir audio_dir entry) (\<lambda>media.
       Inr (\<lparr>part_date_fmt = date_fmt, part_preview = strip_heading preview,
              part_location_html = location, part_wx_line = wx,
              part_text_html = text_html, part_media_block = media\<rparr>, new_date))))))))"

text \<open>The loop over the entries, numbered from \<open>i\<close> on; the state is what has been built.\<close>

fun entries_loop ::
  "pylib \<Rightarrow> pystr \<Rightarrow> pystr \<Rightarrow> pystr \<Rightarrow> nat \<Rightarrow> json list \<Rightarrow> entry_parts list \<times> local_date list
     \<Rightarrow> pyerror + (entry_parts list \<times> local_date list)" where
  "entries_loop lib photos_dir videos_dir audio_dir i [] st = Inr st"
| "entries_loop lib photos_dir videos_dir audio_dir i (entry # rest) (parts, dates) =
     bind (render_entry lib photos_dir videos_dir audio_dir i entry) (\<lambda>(p, new_date).
       entries_loop lib photos_dir videos_dir audio_dir (Suc i) rest
         (parts @ [p], case new_date of None \<Rightarrow> dates | Some d \<Rightarrow> dates @ [d]))"

text \<open>
  \<open>min(dates)\<close> and \<open>max(dates)\<close> for a list that starts with \<open>m\<close>: the first of the
  earliest, the first of the latest.
\<close>

fun min_from :: "local_date \<Rightarrow> local_date list \<Rightarrow> local_date" where
  "min_from m [] = m"
| "min_from m (d # ds) = min_from (if instant d < instant m then d else m) ds"

fun max_from :: "local_date \<Rightarrow> local_date list \<Rightarrow> local_date" where
  "max_from m [] = m"
| "max_from m (d # ds) = max_from (if instant m < instant d then d else m) ds"

definition date_range_str :: "pylib \<Rightarrow> local_date list \<Rightarrow> pystr" where
  "date_range_str lib dates =
     (case dates of
        [] \<Rightarrow> ustr ''No date information''
      | d # ds \<Rightarrow>
          ustr ''from '' @ strftime lib (ustr ''%d %b %Y'') (min_from d ds)
          @ ustr '' to '' @ strftime lib (ustr ''%d %b %Y'') (max_from d ds))"

text \<open>The converter, from the loaded document to the values that fill the page.\<close>

definition convert_dayone_json_to_single_html ::
  "pylib \<Rightarrow> json \<Rightarrow> pystr \<Rightarrow> pystr \<Rightarrow> pystr \<Rightarrow> pyerror + document" where
  "convert_dayone_json_to_single_html lib data photos_dir videos_dir audio_dir =
     bind (subscript data (ustr ''entries'')) (\<lambda>entries.
     bind (iterate entries) (\<lambda>entry_list.
     bind (entries_loop lib photos_dir videos_dir audio_dir 1 entry_list ([], [])) (\<lambda>(parts, dates).
       Inr \<lparr>doc_date_range = date_range_str lib dates, doc_entries = parts\<rparr>)))"

section \<open>A library for the examples\<close>

text \<open>
  The examples need the library at a few inputs, and \<open>example_lib\<close> gives there what
  Python gives: two timestamps parse (to their seconds since 1970), \<open>pytz\<close> knows the zones
  \<open>UTC\<close> and \<open>America/New_York\<close>, the dates of the examples are formatted as \<open>strftime\<close>
  formats them, paths are joined as on a POSIX system and one photo exists. At the other
  inputs its results are of no account; \<open>markdown\<close> is left to be the identity.
\<close>

definition example_strftime :: "pystr \<Rightarrow> local_date \<Rightarrow> pystr" where
  "example_strftime fmt d =
     (if fmt = ustr ''%d %b %Y %I:%M %p'' then
        (if d = \<lparr>instant = 1696516200, zone = ustr ''America/New_York''\<rparr>
           then ustr ''05 Oct 2023 10:30 AM''
         else if d = \<lparr>instant = 1696516200, zone = UTC\<rparr> then ustr ''05 Oct 2023 02:30 PM''
         else if d = \<lparr>instant = 1672531200, zone = UTC\<rparr> then ustr ''01 Jan 2023 12:00 AM''
         else [])
      else if fmt = ustr ''%d %b %Y'' then
        (if instant d = 1696516200 then ustr ''05 Oct 2023''
         else if d = \<lparr>instant = 1672531200, zone = UTC\<rparr> then ustr ''01 Jan 2023''
         else [])
      else [])"

definition example_lib :: pylib where
  "example_lib =
     \<lparr>strptime = (\<lambda>v. if v = JStr (ustr ''2023-10-05T14:30:00Z'') then Some 1696516200
                       else if v = JStr (ustr ''2023-01-01T00:00:00Z'') then Some 1672531200
                       else None),
      timezone = (\<lambda>v. if v = JStr (ustr ''America/New_York'') then Some (ustr ''America/New_York'')
                       else if v = JStr (ustr ''UTC'') then Some UTC
                       else None),
      representable = (\<lambda>d z. True),
      strftime = example_strftime,
      markdown = (\<lambda>s. s),
      format_1f = (\<lambda>v. if v = JFloat 21 \<or> v = JInt 21 then Inr (ustr ''21.0'')
                        else (case v of JStr s \<Rightarrow> Inl FormatError | _ \<Rightarrow> Inl TypeError)),
      str_of = (\<lambda>v. if v = JFloat 48.86 then ustr ''48.86''
                     else if v = JFloat 2.34 then ustr ''2.34''
                     else if v = JInt 1 then ustr ''1''
                     else if v = JInt 2 then ustr ''2''
                     else []),
      path_join = (\<lambda>dir name. dir @ ustr ''/'' @ name),
      path_exists = (\<lambda>p. p = ustr ''photos/abc.png''),
      abspath = (\<lambda>p. ustr ''/home/user/'' @ p),
      os_sep = 47\<rparr>"

section \<open>The dates that the entries add\<close>

text \<open>
  The date that an entry appends to \<open>dates\<close>: the one that its \<open>try\<close> block reaches, if
  it reaches one.
\<close>

definition entry_date :: "pylib \<Rightarrow> json \<Rightarrow> local_date option" where
  "entry_date lib entry =
     (case dict_get entry (ustr ''creationDate'') (JStr []) of
        Inl e \<Rightarrow> None
      | Inr date_str \<Rightarrow> snd (format_date lib entry date_str))"

section \<open>Example documents\<close>

text \<open>Two entries with timestamps that parse and no timezone.\<close>

definition journal_two :: json where
  "journal_two = JObj [(ustr ''entries'', JArr
     [JObj [(ustr ''creationDate'', JStr (ustr ''2023-10-05T14:30:00Z''))],
      JObj [(ustr ''creationDate'', JStr (ustr ''2023-01-01T00:00:00Z''))]])]"

text \<open>One entry with a timestamp that does not parse.\<close>

definition journal_unparsed :: json where
  "journal_unparsed = JObj [(ustr ''entries'', JArr
     [JObj [(ustr ''creationDate'', JStr (ustr ''not-a-date''))]])]"

text \<open>
  Two entries with timestamps that parse; the earlier one names a zone that \<open>pytz\<close> does
  not know.
\<close>

definition journal_unknown_zone :: json where
  "journal_unknown_zone = JObj [(ustr ''entries'', JArr
     [JObj [(ustr ''creationDate'', JStr (ustr ''2023-01-01T00:00:00Z'')),
            (ustr ''timeZone'', JStr (ustr ''Mars/Phobos''))],
      JObj [(ustr ''creationDate'', JStr (ustr ''2023-10-05T14:30:00Z''))]])]"

section \<open>Notions used to state the claims about an entry\<close>

text \<open>The text of a field: the string it holds, empty when it holds no string.\<close>

definition text_of :: "json \<Rightarrow> pystr" where
  "text_of v = (case v of JStr s \<Rightarrow> s | _ \<Rightarrow> [])"

text \<open>The strings of a list with a separator between them.\<close>

fun intercalate :: "pystr \<Rightarrow> pystr list \<Rightarrow> pystr" where
  "intercalate sep [] = []"
| "intercalate sep [x] = x"
| "intercalate sep (x # y # ys) = x @ sep @ intercalate sep (y # ys)"

section \<open>Properties of the loop and of \<open>splitlines\<close>\<close>

lemma list_start_match_Nil [simp]: "\<not> list_start_match []"
  by (simp add: list_start_match_def)

lemma strip_Nil [simp]: "strip [] = []"
  by (simp add: strip_def)

lemma strip_empty_iff: "strip s = [] \<longleftrightarrow> (\<forall>c \<in> set s. isspace c)"
proof -
  have a: "strip s = [] \<longleftrightarrow> (\<forall>c \<in> set (dropWhile isspace s). isspace c)"
    unfolding strip_def by (simp only: rev_is_Nil_conv dropWhile_eq_Nil_conv set_rev)
  have b: "(\<forall>c \<in> set (dropWhile isspace s). isspace c) \<longleftrightarrow> (\<forall>c \<in> set s. isspace c)"
  proof
    assume h: "\<forall>c \<in> set (dropWhile isspace s). isspace c"
    have "dropWhile isspace s = []"
    proof (rule ccontr)
      assume n: "dropWhile isspace s \<noteq> []"
      then have "\<not> isspace (hd (dropWhile isspace s))" by (rule hd_dropWhile)
      moreover have "hd (dropWhile isspace s) \<in> set (dropWhile isspace s)" using n by (rule hd_in_set)
      ultimately show False using h by blast
    qed
    then show "\<forall>c \<in> set s. isspace c" by (simp only: dropWhile_eq_Nil_conv)
  next
    assume "\<forall>c \<in> set s. isspace c"
    then show "\<forall>c \<in> set (dropWhile isspace s). isspace c" by (meson set_dropWhileD)
  qed
  show ?thesis using a b by blast
qed

lemma nlb_loop_append: "nlb_loop (xs @ ys) st = nlb_loop ys (nlb_loop xs st)"
  by (induction xs st rule: nlb_loop.induct) (simp_all add: Let_def)

lemma nlb_loop_out: "fst (nlb_loop ls (out, pb)) = out @ fst (nlb_loop ls ([], pb))"
proof (induction ls arbitrary: out pb)
  case Nil
  show ?case by simp
next
  case (Cons l ls)
  show ?case
    using Cons.IH [of "out @ [[], l]" "strip l = []"] Cons.IH [of "[[], l]" "strip l = []"]
          Cons.IH [of "out @ [l]" "strip l = []"] Cons.IH [of "[l]" "strip l = []"]
    by (cases "list_start_match l"; cases pb) (simp_all add: Let_def)
qed

lemma nlb_loop_snd: "snd (nlb_loop ls (out, pb)) = (if ls = [] then pb else strip (last ls) = [])"
  by (induction ls arbitrary: out pb) (simp_all add: Let_def)

lemma nlb_loop_Cons:
  "fst (nlb_loop (l # ls) ([], pb)) =
     (if list_start_match l \<and> \<not> pb then [[], l] else [l]) @ fst (nlb_loop ls ([], strip l = []))"
  using nlb_loop_out [of ls "[[], l]" "strip l = []"] nlb_loop_out [of ls "[l]" "strip l = []"]
  by (cases "list_start_match l"; cases pb) (simp_all add: Let_def)

declare nlb_loop.simps(2) [simp del]

lemma nlb_loop_separated: "separated pb (fst (nlb_loop ls ([], pb)))"
  by (induction ls arbitrary: pb) (simp_all add: nlb_loop_Cons)

lemma separated_fixed: "separated pb ls \<Longrightarrow> fst (nlb_loop ls ([], pb)) = ls"
  by (induction ls arbitrary: pb) (simp_all add: nlb_loop_Cons)

lemma separated_append: "separated pb (xs @ ys) \<Longrightarrow> separated pb xs"
  by (induction xs arbitrary: pb) simp_all

lemma separated_snoc_empty: "separated pb xs \<Longrightarrow> separated pb (xs @ [[]])"
  by (induction xs arbitrary: pb) simp_all

lemma nlb_loop_Nil_iff: "fst (nlb_loop ls ([], pb)) = [] \<longleftrightarrow> ls = []"
  by (cases ls) (simp_all add: nlb_loop_Cons)

lemma nlb_loop_snoc:
  "fst (nlb_loop (ls @ [l]) ([], pb)) =
     fst (nlb_loop ls ([], pb)) @
       (if list_start_match l \<and> \<not> (if ls = [] then pb else strip (last ls) = []) then [[], l] else [l])"
proof -
  obtain out b where st: "nlb_loop ls ([], pb) = (out, b)" by (cases "nlb_loop ls ([], pb)")
  have b: "b = (if ls = [] then pb else strip (last ls) = [])"
    using nlb_loop_snd [of ls "[]" pb] st by simp
  show ?thesis
    by (simp add: nlb_loop_append st b Let_def nlb_loop.simps(2))
qed

lemma nlb_loop_last: "ls \<noteq> [] \<Longrightarrow> last (fst (nlb_loop ls ([], pb))) = last ls"
  by (cases ls rule: rev_cases) (simp_all add: nlb_loop_snoc)

lemma join_nl_Cons: "join_nl (l # ls) = l @ concat (map (\<lambda>x. LF # x) ls)"
  by (induction ls arbitrary: l) simp_all

lemma splitlines_from_skip:
  "no_linebreak l \<Longrightarrow> splitlines_from line (l @ rest) = splitlines_from (line @ l) rest"
  by (induction l arbitrary: line) (simp_all add: no_linebreak_def is_linebreak_def CR_def)

lemma splitlines_from_LF: "splitlines_from line (LF # rest) = line # splitlines_from [] rest"
  by (simp add: LF_def CR_def is_linebreak_def)

lemma splitlines_from_joined:
  "\<forall>l \<in> set ls. no_linebreak l \<Longrightarrow>
     splitlines_from line (concat (map (\<lambda>x. LF # x) ls)) = drop_last_empty (line # ls)"
proof (induction ls arbitrary: line)
  case Nil
  show ?case by (simp add: drop_last_empty_def)
next
  case (Cons l ls)
  have "splitlines_from line (concat (map (\<lambda>x. LF # x) (l # ls)))
      = line # splitlines_from [] (l @ concat (map (\<lambda>x. LF # x) ls))"
    using splitlines_from_LF [of line "l @ concat (map (\<lambda>x. LF # x) ls)"] by simp
  also have "\<dots> = line # splitlines_from l (concat (map (\<lambda>x. LF # x) ls))"
    using Cons.prems splitlines_from_skip [of l "[]"] by simp
  also have "\<dots> = line # drop_last_empty (l # ls)"
    using Cons by simp
  also have "\<dots> = drop_last_empty (line # l # ls)"
    by (simp add: drop_last_empty_def)
  finally show ?case .
qed

lemma splitlines_join_nl:
  assumes "\<forall>l \<in> set ls. no_linebreak l"
  shows "splitlines (join_nl ls) = drop_last_empty ls"
proof (cases ls)
  case Nil
  then show ?thesis by (simp add: splitlines_def drop_last_empty_def)
next
  case (Cons l ls')
  have "splitlines (join_nl ls) = splitlines_from l (concat (map (\<lambda>x. LF # x) ls'))"
    using assms Cons splitlines_from_skip [of l "[]"] by (simp add: splitlines_def join_nl_Cons)
  then show ?thesis using assms Cons splitlines_from_joined [of ls' l] by simp
qed

lemma no_linebreak_Nil: "no_linebreak []"
  by (simp add: no_linebreak_def)

lemma no_linebreak_snoc: "no_linebreak line \<Longrightarrow> \<not> is_linebreak c \<Longrightarrow> no_linebreak (line @ [c])"
  by (simp add: no_linebreak_def)

lemma splitlines_from_no_linebreak:
  "no_linebreak line \<Longrightarrow> l \<in> set (splitlines_from line s) \<Longrightarrow> no_linebreak l"
proof (induction line s rule: splitlines_from.induct)
  case (1 line)
  then show ?case by (cases "line = []") simp_all
next
  case (2 line c cs)
  show ?case
  proof (cases "c = CR")
    case True
    show ?thesis
    proof (cases cs)
      case Nil
      then show ?thesis using "2.prems" True by simp
    next
      case (Cons d ds)
      show ?thesis
      proof (cases "d = LF")
        case dl: True
        have "l = line \<or> l \<in> set (splitlines_from [] ds)"
          using "2.prems"(2) True Cons dl by simp
        then show ?thesis
          using "2.IH"(1) [OF True Cons dl no_linebreak_Nil] "2.prems"(1) by blast
      next
        case dl: False
        have "l = line \<or> l \<in> set (splitlines_from [] cs)"
          using "2.prems"(2) True Cons dl by simp
        then show ?thesis
          using "2.IH"(2) [OF True Cons dl no_linebreak_Nil] "2.prems"(1) by blast
      qed
    qed
  next
    case False
    show ?thesis
    proof (cases "is_linebreak c")
      case True
      have "l = line \<or> l \<in> set (splitlines_from [] cs)"
        using "2.prems"(2) False True by simp
      then show ?thesis
        using "2.IH"(3) [OF False True no_linebreak_Nil] "2.prems"(1) by blast
    next
      case nb: False
      have "l \<in> set (splitlines_from (line @ [c]) cs)"
        using "2.prems"(2) False nb by simp
      then show ?thesis
        using "2.IH"(4) [OF False nb no_linebreak_snoc [OF "2.prems"(1) nb]] by blast
    qed
  qed
qed

lemma splitlines_no_linebreak: "\<forall>l \<in> set (splitlines s). no_linebreak l"
  using splitlines_from_no_linebreak [OF no_linebreak_Nil, of _ s] by (simp add: splitlines_def)

lemma nlb_loop_set: "set (fst (nlb_loop ls ([], pb))) \<subseteq> insert [] (set ls)"
proof (induction ls arbitrary: pb)
  case Nil
  show ?case by simp
next
  case (Cons l ls)
  have "set (fst (nlb_loop (l # ls) ([], pb))) \<subseteq> {[], l} \<union> set (fst (nlb_loop ls ([], strip l = [])))"
    by (auto simp add: nlb_loop_Cons)
  then show ?case using Cons [of "strip l = []"] by auto
qed

lemma out_lines_no_linebreak: "\<forall>l \<in> set (out_lines s). no_linebreak l"
proof -
  have "set (out_lines s) \<subseteq> insert [] (set (splitlines s))"
    using nlb_loop_set [of "splitlines s" True] by (auto simp add: out_lines_def Let_def)
  then show ?thesis using no_linebreak_Nil splitlines_no_linebreak [of s] by auto
qed

lemma blank_inserted:
  assumes "strip p \<noteq> []" and "list_start_match l"
  shows "fst (nlb_loop (pre @ [p, l] @ post) ([], True)) =
           fst (nlb_loop (pre @ [p]) ([], True)) @ [[], l] @ fst (nlb_loop post ([], strip l = []))"
proof -
  obtain o1 b1 where st: "nlb_loop (pre @ [p]) ([], True) = (o1, b1)"
    by (cases "nlb_loop (pre @ [p]) ([], True)")
  have b1: "\<not> b1" using nlb_loop_snd [of "pre @ [p]" "[]" True] st assms(1) by simp
  have "nlb_loop (pre @ [p, l] @ post) ([], True) = nlb_loop (l # post) (o1, b1)"
    using nlb_loop_append [of "pre @ [p]" "l # post" "([], True)"] st by simp
  then have "fst (nlb_loop (pre @ [p, l] @ post) ([], True)) = o1 @ fst (nlb_loop (l # post) ([], b1))"
    using nlb_loop_out [of "l # post" o1 b1] by simp
  then show ?thesis using st b1 assms(2) by (simp add: nlb_loop_Cons)
qed

lemma out_lines_cases:
  "out_lines s = fst (nlb_loop (splitlines s) ([], True)) \<or>
   out_lines s = fst (nlb_loop (splitlines s) ([], True)) @ [[]]"
  by (simp add: out_lines_def Let_def)

lemma list_item_not_blank:
  assumes "list_start_match l"
  shows "strip l \<noteq> []"
proof -
  obtain c cs where d: "dropWhile isspace l = c # cs"
    using assms by (cases "dropWhile isspace l") (simp_all add: list_start_match_def)
  have "c = 45 \<or> c = 43 \<or> c = 42 \<or> is_digit c"
    using assms d by (auto simp add: list_start_match_def split: if_splits)
  then have "\<not> isspace c" by (auto simp add: isspace_def is_digit_def)
  moreover have "c \<in> set l" using d set_dropWhileD [of c isspace l] by simp
  ultimately show ?thesis using strip_empty_iff [of l] by blast
qed


lemma join_nl_snoc: "xs \<noteq> [] \<Longrightarrow> join_nl (xs @ [y]) = join_nl xs @ LF # y"
proof (induction xs rule: join_nl.induct)
  case 1
  then show ?case by simp
next
  case (2 x)
  show ?case by simp
next
  case (3 x z zs)
  then show ?case by simp
qed

lemma join_nl_last:
  "xs \<noteq> [] \<Longrightarrow> last xs \<noteq> [] \<Longrightarrow> join_nl xs \<noteq> [] \<and> last (join_nl xs) = last (last xs)"
proof (induction xs rule: join_nl.induct)
  case 1
  then show ?case by simp
next
  case (2 x)
  then show ?case by simp
next
  case (3 x z zs)
  then show ?case by simp
qed

lemma splitlines_Nil_iff: "splitlines s = [] \<longleftrightarrow> s = []"
proof -
  have "splitlines_from line s = [] \<longleftrightarrow> line = [] \<and> s = []" for line
  proof (induction s arbitrary: line)
    case Nil
    show ?case by simp
  next
    case (Cons c cs)
    show ?case using Cons [of "line @ [c]"] by (simp split: list.splits)
  qed
  then show ?thesis by (simp add: splitlines_def)
qed

lemma out_lines_last: "out_lines s \<noteq> [] \<Longrightarrow> last (out_lines s) = []"
  by (simp add: out_lines_def Let_def split: if_splits)

lemma out_lines_nonblank_last:
  assumes "splitlines s \<noteq> []" and "last (splitlines s) \<noteq> []"
  shows "out_lines s = fst (nlb_loop (splitlines s) ([], True)) @ [[]]"
proof -
  have "fst (nlb_loop (splitlines s) ([], True)) \<noteq> []"
    using assms(1) by (simp add: nlb_loop_Nil_iff)
  moreover have "last (fst (nlb_loop (splitlines s) ([], True))) \<noteq> []"
    using assms nlb_loop_last [of "splitlines s" True] by simp
  ultimately show ?thesis by (simp add: out_lines_def Let_def)
qed


section \<open>The end of the returned text\<close>

lemma no_linebreak_LF: "no_linebreak l \<Longrightarrow> LF \<notin> set l"
  by (auto simp add: no_linebreak_def is_linebreak_def LF_def)

lemma one_trailing_newline_Nil: "\<not> one_trailing_newline []"
  by (simp add: one_trailing_newline_def)

lemma one_trailing_newline_snoc:
  "one_trailing_newline (r @ [c]) \<longleftrightarrow> c = LF \<and> (r = [] \<or> last r \<noteq> LF)"
  by (cases r rule: rev_cases) (simp_all add: one_trailing_newline_def)

lemma one_trailing_newline_no_LF: "LF \<notin> set r \<Longrightarrow> \<not> one_trailing_newline r"
  by (cases r rule: rev_cases) (simp_all add: one_trailing_newline_Nil one_trailing_newline_snoc)

lemma single_newline_lines_Nil: "\<not> single_newline_lines []"
  by (simp add: single_newline_lines_def)

lemma single_newline_lines_snoc:
  "single_newline_lines (ls @ [a]) \<longleftrightarrow>
     (if ls = [] then a \<noteq> [] else a \<noteq> [] \<or> last ls \<noteq> [] \<or> length ls = 1)"
proof (cases ls rule: rev_cases)
  case Nil
  then show ?thesis by (simp add: single_newline_lines_def)
next
  case (snoc ks b)
  then show ?thesis by (cases ks) (auto simp add: single_newline_lines_def)
qed

lemma join_nl_Nil_iff: "join_nl M = [] \<longleftrightarrow> M = [] \<or> M = [[]]"
  by (induction M rule: join_nl.induct) simp_all

lemma join_nl_end:
  "M \<noteq> [] \<Longrightarrow> join_nl (M @ [[]]) = join_nl M @ [LF]"
  by (simp add: join_nl_snoc)

lemma join_nl_last_char:
  assumes "M \<noteq> []" and "join_nl M \<noteq> []"
  shows "last (join_nl M) = (if last M = [] then LF else last (last M))"
proof (cases M rule: rev_cases)
  case Nil
  then show ?thesis using assms by simp
next
  case (snoc M1 m)
  show ?thesis
  proof (cases "M1 = []")
    case True
    then show ?thesis using snoc assms by simp
  next
    case False
    then show ?thesis using snoc by (simp add: join_nl_snoc)
  qed
qed

lemma join_one_trailing:
  assumes "\<forall>l \<in> set M. no_linebreak l"
  shows "one_trailing_newline (join_nl M) \<longleftrightarrow>
     2 \<le> length M \<and> last M = [] \<and> (last (butlast M) \<noteq> [] \<or> length M = 2)"
proof (cases M rule: rev_cases)
  case Nil
  then show ?thesis by (simp add: one_trailing_newline_Nil)
next
  case (snoc M1 m)
  show ?thesis
  proof (cases "M1 = []")
    case True
    then have "LF \<notin> set (join_nl M)" using snoc assms no_linebreak_LF by simp
    then show ?thesis using True snoc one_trailing_newline_no_LF by auto
  next
    case M1: False
    have j: "join_nl M = join_nl M1 @ LF # m" using snoc M1 by (simp add: join_nl_snoc)
    show ?thesis
    proof (cases "m = []")
      case False
      have "LF \<notin> set m" using snoc assms no_linebreak_LF by simp
      then have "last m \<noteq> LF" using False last_in_set by metis
      then have "\<not> one_trailing_newline (join_nl M)"
        using j False one_trailing_newline_snoc [of "join_nl M1 @ LF # butlast m" "last m"]
        by simp
      then show ?thesis using snoc False by simp
    next
      case True
      have ot: "one_trailing_newline (join_nl M) \<longleftrightarrow> join_nl M1 = [] \<or> last (join_nl M1) \<noteq> LF"
        using j True one_trailing_newline_snoc [of "join_nl M1" LF] by simp
      have lM1: "LF \<notin> set (last M1)" using snoc assms M1 no_linebreak_LF by simp
      have "join_nl M1 = [] \<or> last (join_nl M1) \<noteq> LF \<longleftrightarrow> last M1 \<noteq> [] \<or> length M1 = 1"
      proof (cases "join_nl M1 = []")
        case True
        then have "M1 = [[]]" using M1 by (simp add: join_nl_Nil_iff)
        then show ?thesis using True by simp
      next
        case False
        have lc: "last (join_nl M1) = (if last M1 = [] then LF else last (last M1))"
          using M1 False by (rule join_nl_last_char)
        show ?thesis
        proof (cases "last M1 = []")
          case True
          have "length M1 \<noteq> 1"
          proof
            assume "length M1 = 1"
            then have "M1 = [[]]" using True by (cases M1) auto
            then show False using False by simp
          qed
          then show ?thesis using False lc True by simp
        next
          case ne: False
          then have "last (last M1) \<noteq> LF" using lM1 last_in_set by metis
          then show ?thesis using False lc ne by simp
        qed
      qed
      then show ?thesis using ot snoc True M1 by (cases M1) auto
    qed
  qed
qed

lemma nlb_loop_length: "length ls \<le> length (fst (nlb_loop ls ([], pb)))"
proof (induction ls arbitrary: pb)
  case Nil
  show ?case by simp
next
  case (Cons l ls)
  show ?case using Cons [of "strip l = []"] by (simp add: nlb_loop_Cons)
qed

lemma nlb_loop_length_one:
  "ls \<noteq> [] \<Longrightarrow> length (fst (nlb_loop ls ([], True))) = 1 \<longleftrightarrow> length ls = 1"
proof (cases ls)
  case Nil
  assume "ls \<noteq> []"
  then show ?thesis using Nil by simp
next
  case (Cons b bs)
  show ?thesis
  proof (cases bs)
    case Nil
    then show ?thesis using Cons by (simp add: nlb_loop_Cons)
  next
    case (Cons c cs)
    then have "2 \<le> length (fst (nlb_loop ls ([], True)))"
      using \<open>ls = b # bs\<close> nlb_loop_length [of ls True] by simp
    then show ?thesis using Cons \<open>ls = b # bs\<close> by simp
  qed
qed

lemma out_lines_empty_last:
  assumes "splitlines x = ls @ [[]]"
  shows "out_lines x = fst (nlb_loop ls ([], True)) @ [[]]"
proof -
  have "fst (nlb_loop (splitlines x) ([], True)) = fst (nlb_loop ls ([], True)) @ [[]]"
    using assms nlb_loop_snoc [of ls "[]" True] by simp
  then show ?thesis by (simp add: out_lines_def)
qed

lemma out_lines_Nil: "splitlines x = [] \<Longrightarrow> out_lines x = []"
  by (simp add: out_lines_def)

lemma out_lines_shape:
  "(2 \<le> length (out_lines x) \<and> last (out_lines x) = []
      \<and> (last (butlast (out_lines x)) \<noteq> [] \<or> length (out_lines x) = 2))
   \<longleftrightarrow> single_newline_lines (splitlines x)"
proof (cases "splitlines x" rule: rev_cases)
  case Nil
  then show ?thesis by (simp add: out_lines_Nil single_newline_lines_Nil)
next
  case (snoc ls a)
  let ?o = "fst (nlb_loop (splitlines x) ([], True))"
  let ?before = "fst (nlb_loop ls ([], True))"
  show ?thesis
  proof (cases "a = []")
    case False
    have o: "out_lines x = ?o @ [[]]"
      using snoc False out_lines_nonblank_last [of x] by simp
    have "?o \<noteq> []" using snoc by (simp add: nlb_loop_Nil_iff)
    moreover have "last ?o = a" using snoc nlb_loop_last [of "splitlines x" True] by simp
    ultimately have "2 \<le> length (out_lines x) \<and> last (out_lines x) = []
        \<and> last (butlast (out_lines x)) \<noteq> []"
      using o False by (cases ?o) simp_all
    then show ?thesis using snoc False by (simp add: single_newline_lines_snoc)
  next
    case True
    have o: "out_lines x = ?before @ [[]]" using snoc True by (simp add: out_lines_empty_last)
    show ?thesis
    proof (cases "ls = []")
      case e: True
      have "\<not> single_newline_lines [[]]" by (simp add: single_newline_lines_def)
      then show ?thesis using e o snoc True by simp
    next
      case ne: False
      have "?before \<noteq> []" using ne by (simp add: nlb_loop_Nil_iff)
      moreover have "last ?before = last ls" using ne by (rule nlb_loop_last)
      moreover have "length ?before = 1 \<longleftrightarrow> length ls = 1" using ne by (rule nlb_loop_length_one)
      ultimately show ?thesis
        using o snoc True ne by (cases ?before) (simp_all add: single_newline_lines_snoc)
    qed
  qed
qed

lemma out_lines_Nil_iff: "out_lines x = [] \<longleftrightarrow> splitlines x = []"
  by (auto simp add: out_lines_def Let_def nlb_loop_Nil_iff)

lemma out_lines_single_empty: "out_lines x = [[]] \<longleftrightarrow> splitlines x = [[]]"
proof (cases "splitlines x" rule: rev_cases)
  case Nil
  then show ?thesis by (simp add: out_lines_Nil)
next
  case (snoc ls a)
  show ?thesis
  proof (cases "a = []")
    case False
    have "out_lines x = fst (nlb_loop (splitlines x) ([], True)) @ [[]]"
      using snoc False out_lines_nonblank_last [of x] by simp
    moreover have "fst (nlb_loop (splitlines x) ([], True)) \<noteq> []"
      using snoc by (simp add: nlb_loop_Nil_iff)
    ultimately show ?thesis using snoc False by simp
  next
    case True
    then have "out_lines x = fst (nlb_loop ls ([], True)) @ [[]]"
      using snoc by (simp add: out_lines_empty_last)
    then show ?thesis using snoc True by (simp add: nlb_loop_Nil_iff)
  qed
qed


lemma two_trailing_empty_Nil: "\<not> two_trailing_empty []"
  by (simp add: two_trailing_empty_def)

lemma two_trailing_empty_snoc:
  "two_trailing_empty (xs @ [a]) \<longleftrightarrow> a = [] \<and> xs \<noteq> [] \<and> last xs = []"
  by (cases xs rule: rev_cases) (auto simp add: two_trailing_empty_def)

lemma out_lines_two_trailing_empty:
  "two_trailing_empty (out_lines x) = two_trailing_empty (splitlines x)"
proof (cases "splitlines x" rule: rev_cases)
  case Nil
  then show ?thesis by (simp add: out_lines_def)
next
  case (snoc ls e)
  let ?o0 = "fst (nlb_loop ls ([], True))"
  show ?thesis
  proof (cases "e = []")
    case True
    have "fst (nlb_loop (splitlines x) ([], True)) = ?o0 @ [[]]"
      using snoc True nlb_loop_snoc [of ls e True] by simp
    then have o: "out_lines x = ?o0 @ [[]]" by (simp add: out_lines_def)
    have "?o0 \<noteq> [] \<and> last ?o0 = [] \<longleftrightarrow> ls \<noteq> [] \<and> last ls = []"
      using nlb_loop_Nil_iff [of ls True] nlb_loop_last [of ls True] by auto
    then show ?thesis using o snoc True by (simp add: two_trailing_empty_snoc)
  next
    case False
    have "splitlines x \<noteq> [] \<and> last (splitlines x) \<noteq> []" using snoc False by simp
    then have o: "out_lines x = fst (nlb_loop (splitlines x) ([], True)) @ [[]]"
      using out_lines_nonblank_last by blast
    have "last (fst (nlb_loop (splitlines x) ([], True))) \<noteq> []"
      using snoc False nlb_loop_last [of "splitlines x" True] by simp
    then have "\<not> two_trailing_empty (out_lines x)"
      using o by (simp add: two_trailing_empty_snoc)
    then show ?thesis using snoc False by (simp add: two_trailing_empty_snoc)
  qed
qed

lemma out_lines_separated: "separated True (out_lines x)"
  using nlb_loop_separated [of True "splitlines x"]
  by (simp add: out_lines_def Let_def separated_snoc_empty)

lemma out_lines_again:
  assumes "out_lines x = b @ [[]]"
  shows "out_lines (normalize_list_boundaries x) =
           (if b \<noteq> [] \<and> last b \<noteq> [] then b @ [[]] else b)"
proof -
  have "splitlines (normalize_list_boundaries x) = drop_last_empty (out_lines x)"
    using out_lines_no_linebreak [of x] splitlines_join_nl [of "out_lines x"]
    by (simp add: normalize_list_boundaries_def)
  then have s: "splitlines (normalize_list_boundaries x) = b"
    using assms by (simp add: drop_last_empty_def)
  have "separated True b" using out_lines_separated [of x] assms separated_append [of True b "[[]]"] by simp
  then have "fst (nlb_loop b ([], True)) = b" by (rule separated_fixed)
  then show ?thesis using s by (simp add: out_lines_def)
qed

lemma join_nl_snoc_neq: "b \<noteq> [] \<Longrightarrow> join_nl (b @ [y]) \<noteq> join_nl b"
  by (simp add: join_nl_snoc)

lemma linebreak_isspace: "is_linebreak c \<Longrightarrow> isspace c"
  by (auto simp add: is_linebreak_def isspace_def)

lemma strip_last: 
  assumes "strip t \<noteq> []"
  shows "\<not> isspace (last (strip t))"
proof -
  let ?d = "dropWhile isspace (rev (dropWhile isspace t))"
  have d: "?d \<noteq> []" using assms by (simp add: strip_def)
  then have "\<not> isspace (hd ?d)" by (rule hd_dropWhile)
  moreover have "last (strip t) = hd ?d" using d by (simp only: strip_def last_rev)
  ultimately show ?thesis by simp
qed

lemma two_trailing_empty_last: "two_trailing_empty ls \<Longrightarrow> ls \<noteq> [] \<and> last ls = []"
  by (cases ls rule: rev_cases) (simp_all add: two_trailing_empty_Nil two_trailing_empty_snoc)

lemma splitlines_from_last:
  "(s \<noteq> [] \<and> \<not> is_linebreak (last s)) \<or> (s = [] \<and> line \<noteq> []) \<Longrightarrow>
     splitlines_from line s \<noteq> [] \<and> last (splitlines_from line s) \<noteq> []"
proof (induction line s rule: splitlines_from.induct)
  case (1 line)
  then show ?case by simp
next
  case (2 line c cs)
  then have nl: "\<not> is_linebreak (last (c # cs))" by simp
  have cr: "is_linebreak CR" by (simp add: is_linebreak_def CR_def)
  have lf: "is_linebreak LF" by (simp add: is_linebreak_def LF_def)
  show ?case
  proof (cases "c = CR")
    case True
    show ?thesis
    proof (cases cs)
      case Nil
      then show ?thesis using nl True cr by simp
    next
      case (Cons d ds)
      show ?thesis
      proof (cases "d = LF")
        case dl: True
        have "ds \<noteq> [] \<and> \<not> is_linebreak (last ds)"
          using nl Cons dl lf by (cases ds) simp_all
        then have "splitlines_from [] ds \<noteq> [] \<and> last (splitlines_from [] ds) \<noteq> []"
          using "2.IH"(1) [OF True Cons dl] by blast
        then show ?thesis using True Cons dl by simp
      next
        case dl: False
        have "cs \<noteq> [] \<and> \<not> is_linebreak (last cs)" using nl Cons by simp
        then have "splitlines_from [] cs \<noteq> [] \<and> last (splitlines_from [] cs) \<noteq> []"
          using "2.IH"(2) [OF True Cons dl] by blast
        then show ?thesis using True Cons dl by simp
      qed
    qed
  next
    case False
    show ?thesis
    proof (cases "is_linebreak c")
      case True
      have "cs \<noteq> [] \<and> \<not> is_linebreak (last cs)" using nl True by (cases cs) simp_all
      then have "splitlines_from [] cs \<noteq> [] \<and> last (splitlines_from [] cs) \<noteq> []"
        using "2.IH"(3) [OF False True] by blast
      then show ?thesis using False True by simp
    next
      case nb: False
      have "(cs \<noteq> [] \<and> \<not> is_linebreak (last cs)) \<or> (cs = [] \<and> line @ [c] \<noteq> [])"
        using nl by (cases cs) simp_all
      then have "splitlines_from (line @ [c]) cs \<noteq> [] \<and> last (splitlines_from (line @ [c]) cs) \<noteq> []"
        using "2.IH"(4) [OF False nb] by blast
      then show ?thesis using False nb by simp
    qed
  qed
qed

lemma strip_no_two_trailing_empty: "\<not> two_trailing_empty (splitlines (strip t))"
proof (cases "strip t = []")
  case True
  then show ?thesis by (simp add: splitlines_def two_trailing_empty_Nil)
next
  case False
  then have "\<not> is_linebreak (last (strip t))" using strip_last linebreak_isspace by blast
  then have "last (splitlines (strip t)) \<noteq> []"
    using False splitlines_from_last [of "strip t" "[]"] by (simp add: splitlines_def)
  then show ?thesis using two_trailing_empty_last by blast
qed


section \<open>The inserted blank line in the returned text\<close>

lemma join_nl_append:
  "xs \<noteq> [] \<Longrightarrow> ys \<noteq> [] \<Longrightarrow> join_nl (xs @ ys) = join_nl xs @ LF # join_nl ys"
proof (induction xs rule: join_nl.induct)
  case 1
  then show ?case by simp
next
  case (2 x)
  then show ?case by (cases ys) simp_all
next
  case (3 x z zs)
  then show ?case by simp
qed

lemma join_nl_snoc_line: "join_nl (xs @ [p]) = (if xs = [] then [] else join_nl xs @ [LF]) @ p"
  by (cases "xs = []") (simp_all add: join_nl_snoc)

lemma blank_line_in_text:
  assumes lines: "splitlines md_text = pre @ [p, l] @ post"
    and p: "strip p \<noteq> []" and l: "list_start_match l"
  shows "\<exists>a rest. normalize_list_boundaries md_text = a @ p @ [LF, LF] @ l @ LF # rest
           \<and> (a = [] \<or> last a = LF)
           \<and> normalize_list_boundaries (join_nl (pre @ [p])) = a @ p @ [LF]"
proof -
  let ?o = "fst (nlb_loop (pre @ [p]) ([], True))"
  have pne: "p \<noteq> []" using p by auto
  have lne: "l \<noteq> []" using l by auto
  have o_ne: "?o \<noteq> []" by (simp add: nlb_loop_Nil_iff)
  have o_last: "last ?o = p" using nlb_loop_last [of "pre @ [p]" True] by simp
  obtain o' where o': "?o = o' @ [p]"
    using o_ne o_last append_butlast_last_id [of ?o] by metis
  define a where "a = (if o' = [] then [] else join_nl o' @ [LF])"
  have jo: "join_nl ?o = a @ p" unfolding o' a_def by (rule join_nl_snoc_line)
  have a: "a = [] \<or> last a = LF" by (simp add: a_def)
  \<comment> \<open>the whole text\<close>
  obtain r where out: "out_lines md_text = ?o @ [[], l] @ r"
    using out_lines_cases [of md_text] blank_inserted [OF p l, of pre post] lines by auto
  have r_ne: "r \<noteq> []"
  proof
    assume "r = []"
    then have "last (out_lines md_text) = l" using out by simp
    moreover have "last (out_lines md_text) = []" using out by (intro out_lines_last) simp
    ultimately show False using lne by simp
  qed
  have "join_nl (?o @ [[], l] @ r) = join_nl ?o @ LF # join_nl ([[], l] @ r)"
    using o_ne by (intro join_nl_append) simp_all
  also have "join_nl ([[], l] @ r) = LF # join_nl (l # r)" by simp
  also have "join_nl (l # r) = l @ LF # join_nl r"
    using r_ne join_nl_append [of "[l]" r] by simp
  finally have whole: "normalize_list_boundaries md_text = a @ p @ [LF, LF] @ l @ LF # join_nl r"
    using out jo by (simp add: normalize_list_boundaries_def)
  \<comment> \<open>the text up to \<open>p\<close>\<close>
  have nb: "\<forall>x \<in> set (pre @ [p]). no_linebreak x"
    using splitlines_no_linebreak [of md_text] lines by simp
  have "splitlines (join_nl (pre @ [p])) = pre @ [p]"
    using splitlines_join_nl [OF nb] pne by (simp add: drop_last_empty_def)
  then have "out_lines (join_nl (pre @ [p])) = ?o @ [[]]"
    using o_ne o_last pne by (simp add: out_lines_def)
  then have part: "normalize_list_boundaries (join_nl (pre @ [p])) = a @ p @ [LF]"
    using jo o_ne by (simp add: normalize_list_boundaries_def join_nl_snoc)
  show ?thesis using whole a part by blast
qed


section \<open>Properties of the entry loop\<close>

lemma bind_Inr_iff: "bind m f = Inr y \<longleftrightarrow> (\<exists>v. m = Inr v \<and> f v = Inr y)"
  by (cases m) (simp_all add: bind_def)

lemma bind_Inr [simp]: "bind (Inr v) f = f v"
  by (simp add: bind_def)

lemma bind_Inl [simp]: "bind (Inl e) f = Inl e"
  by (simp add: bind_def)

lemma render_entry_date:
  assumes "render_entry lib pd vd ad i entry = Inr (p, d)"
  shows "\<exists>date_str. dict_get entry (ustr ''creationDate'') (JStr []) = Inr date_str
           \<and> format_date lib entry date_str = (part_date_fmt p, d)"
proof -
  from assms obtain t body date_str where
    ds: "dict_get entry (ustr ''creationDate'') (JStr []) = Inr date_str"
    and rest: "(let (date_fmt, new_date) = format_date lib entry date_str;
           normalized = normalize_list_boundaries body;
           text_html = markdown lib normalized
       in
     bind (if body \<noteq> []
           then (case splitlines body of [] \<Rightarrow> Inl IndexError | line # _ \<Rightarrow> Inr line)
           else Inr (ustr ''Entry '' @ str_of lib (JInt (int i)))) (\<lambda>preview.
     bind (location_html lib entry) (\<lambda>location.
     bind (wx_line lib entry) (\<lambda>wx.
     bind (media_block lib pd vd ad entry) (\<lambda>media.
       Inr (\<lparr>part_date_fmt = date_fmt, part_preview = strip_heading preview,
              part_location_html = location, part_wx_line = wx,
              part_text_html = text_html, part_media_block = media\<rparr>, new_date)))))) = Inr (p, d)"
    unfolding render_entry_def bind_Inr_iff by blast
  obtain date_fmt new_date where fd: "format_date lib entry date_str = (date_fmt, new_date)"
    by (cases "format_date lib entry date_str")
  from rest have "part_date_fmt p = date_fmt \<and> d = new_date"
    unfolding fd Let_def prod.case bind_Inr_iff by auto
  then show ?thesis using ds fd by auto
qed

lemma render_entry_entry_date:
  assumes "render_entry lib pd vd ad i entry = Inr (p, d)"
  shows "d = entry_date lib entry"
  using render_entry_date [OF assms] by (auto simp add: entry_date_def)

lemma entries_loop_dates:
  "entries_loop lib pd vd ad i es (parts, dates) = Inr (parts', dates') \<Longrightarrow>
     dates' = dates @ List.map_filter (entry_date lib) es"
proof (induction es arbitrary: i parts dates)
  case Nil
  then show ?case by (simp add: List.map_filter_simps)
next
  case (Cons e es)
  from Cons.prems obtain p d where
    r: "render_entry lib pd vd ad i e = Inr (p, d)"
    and l: "entries_loop lib pd vd ad (Suc i) es
              (parts @ [p], case d of None \<Rightarrow> dates | Some x \<Rightarrow> dates @ [x]) = Inr (parts', dates')"
    by (auto simp add: bind_Inr_iff)
  have d: "d = entry_date lib e" using r by (rule render_entry_entry_date)
  show ?case
  proof (cases "entry_date lib e")
    case None
    then show ?thesis using Cons.IH [OF l] d by (simp add: List.map_filter_simps)
  next
    case (Some x)
    then show ?thesis using Cons.IH [OF l] d by (simp add: List.map_filter_simps)
  qed
qed

lemma min_from_least:
  "min_from m ds \<in> set (m # ds) \<and> (\<forall>d \<in> set (m # ds). instant (min_from m ds) \<le> instant d)"
proof (induction ds arbitrary: m)
  case Nil
  show ?case by simp
next
  case (Cons a ds)
  show ?case using Cons [of "if instant a < instant m then a else m"] by (auto split: if_splits)
qed

lemma max_from_greatest:
  "max_from m ds \<in> set (m # ds) \<and> (\<forall>d \<in> set (m # ds). instant d \<le> instant (max_from m ds))"
proof (induction ds arbitrary: m)
  case Nil
  show ?case by simp
next
  case (Cons a ds)
  show ?case using Cons [of "if instant m < instant a then a else m"] by (auto split: if_splits)
qed

lemma date_range_str_bounds:
  assumes "ds \<noteq> []"
  shows "\<exists>a b. a \<in> set ds \<and> b \<in> set ds
          \<and> (\<forall>d \<in> set ds. instant a \<le> instant d \<and> instant d \<le> instant b)
          \<and> date_range_str lib ds = ustr ''from '' @ strftime lib (ustr ''%d %b %Y'') a
                @ ustr '' to '' @ strftime lib (ustr ''%d %b %Y'') b"
proof -
  obtain m rest where ds: "ds = m # rest" using assms by (cases ds) auto
  have "min_from m rest \<in> set ds \<and> max_from m rest \<in> set ds
      \<and> (\<forall>d \<in> set ds. instant (min_from m rest) \<le> instant d \<and> instant d \<le> instant (max_from m rest))"
    using min_from_least [of m rest] max_from_greatest [of m rest] ds by blast
  moreover have "date_range_str lib ds = ustr ''from '' @ strftime lib (ustr ''%d %b %Y'') (min_from m rest)
                @ ustr '' to '' @ strftime lib (ustr ''%d %b %Y'') (max_from m rest)"
    using ds by (simp add: date_range_str_def)
  ultimately show ?thesis by blast
qed

lemma entry_date_unparsed:
  assumes "\<And>s. dict_get e (ustr ''creationDate'') (JStr []) = Inr s \<Longrightarrow> strptime lib s = None"
  shows "entry_date lib e = None"
proof (cases "dict_get e (ustr ''creationDate'') (JStr [])")
  case (Inl a)
  then show ?thesis by (simp add: entry_date_def)
next
  case (Inr s)
  then show ?thesis using assms [OF Inr] by (simp add: entry_date_def format_date_def)
qed

lemma map_filter_all_None: "(\<And>x. x \<in> set xs \<Longrightarrow> f x = None) \<Longrightarrow> List.map_filter f xs = []"
  by (induction xs) (simp_all add: List.map_filter_simps)

text \<open>The definitions that an example unfolds to run the converter.\<close>

lemmas eval_defs = convert_dayone_json_to_single_html_def subscript_def iterate_def render_entry_def
      dict_get_def format_date_def astimezone_def location_html_def wx_line_def media_block_def
      date_range_str_def strip_heading_def normalize_list_boundaries_def out_lines_def
      splitlines_def strip_def example_lib_def example_strftime_def UTC_def ustr_def bind_def

lemma text_of_JStr: "text_of (JStr s) = s"
  by (simp add: text_of_def)

lemma join_strs_intercalate:
  "join_strs sep vs = Inr r \<Longrightarrow>
     (\<forall>v \<in> set vs. \<exists>s. v = JStr s) \<and> r = intercalate sep (map text_of vs)"
proof (induction sep vs arbitrary: r rule: join_strs.induct)
  case (1 sep)
  then show ?case by simp
next
  case (2 sep x)
  then show ?case by (cases x) (simp_all add: text_of_JStr)
next
  case (3 sep x y ys)
  from "3.prems" obtain s r' where x: "x = JStr s"
    and r': "join_strs sep (y # ys) = Inr r'" and r: "r = s @ sep @ r'"
    by (cases x) (auto simp add: bind_Inr_iff)
  have "(\<forall>v \<in> set (y # ys). \<exists>s. v = JStr s) \<and> r' = intercalate sep (map text_of (y # ys))"
    using "3.IH" [OF x r'] .
  then show ?case using x r by (simp add: text_of_JStr)
qed

lemma truthy_texts:
  "\<forall>v \<in> set (filter truthy xs). \<exists>s. v = JStr s \<Longrightarrow>
     map text_of (filter truthy xs) = filter (\<lambda>s. s \<noteq> []) (map text_of xs)"
proof (induction xs)
  case Nil
  show ?case by simp
next
  case (Cons x xs)
  show ?case
  proof (cases "truthy x")
    case True
    then obtain s where "x = JStr s" using Cons.prems by auto
    then show ?thesis using True Cons by (simp add: text_of_JStr)
  next
    case False
    then have "text_of x = []" by (cases x) (simp_all add: text_of_def)
    then show ?thesis using False Cons by simp
  qed
qed

lemma truthy_not_null: "truthy v \<Longrightarrow> v \<noteq> JNull"
  by auto

lemma first_existing_find:
  "first_existing lib dir name (map (\<lambda>ext. (ext, x)) exts) =
     map_option (\<lambda>ext. (path_join lib dir (name @ ext), x))
       (find (\<lambda>ext. path_exists lib (path_join lib dir (name @ ext))) exts)"
  by (induction exts) (simp_all add: Let_def)

lemma photo_exts_map: "photo_exts = map (\<lambda>ext. (ext, ())) [ustr ''.jpg'', ustr ''.jpeg'', ustr ''.png'']"
  by (simp add: photo_exts_def)


section \<open>A list item after a line of text\<close>

text \<open>
  Claim C5. Take two consecutive lines \<open>p\<close>, \<open>l\<close> of the input, where \<open>p\<close> is neither blank
  nor a list item and \<open>l\<close> is a list item (its content after the leading whitespace starts
  with \<open>-\<close>, \<open>+\<close> or \<open>*\<close> and whitespace, or with digits, \<open>.\<close> or \<open>)\<close>, and whitespace).
  Then the text that the normalizer returns is the text it returns for the input up to
  \<open>p\<close>, which ends with the line \<open>p\<close> and its newline, then one more newline, then the
  line \<open>l\<close> and its newline: exactly one blank line has been inserted before \<open>l\<close>. In
  the list \<open>out\<close> this is the one empty line between \<open>p\<close> and \<open>l\<close>.
\<close>

theorem list_item_after_text_line:
  assumes "splitlines md_text = pre @ [p, l] @ post"
    and "strip p \<noteq> []" and "\<not> list_start_match p" and "list_start_match l"
  shows "(\<exists>a rest. normalize_list_boundaries md_text = a @ p @ [LF, LF] @ l @ LF # rest
             \<and> (a = [] \<or> last a = LF)
             \<and> normalize_list_boundaries (join_nl (pre @ [p])) = a @ p @ [LF])
       \<and> (\<exists>rest. out_lines md_text = fst (nlb_loop (pre @ [p]) ([], True)) @ [[], l] @ rest
             \<and> last (fst (nlb_loop (pre @ [p]) ([], True))) = p)"
proof -
  let ?o = "fst (nlb_loop (pre @ [p]) ([], True))"
  let ?r = "fst (nlb_loop post ([], strip l = []))"
  have "out_lines md_text = ?o @ [[], l] @ ?r \<or> out_lines md_text = ?o @ [[], l] @ (?r @ [[]])"
    using out_lines_cases [of md_text] blank_inserted [OF assms(2) assms(4), of pre post] assms(1)
    by simp
  moreover have "last ?o = p" using nlb_loop_last [of "pre @ [p]" True] by simp
  ultimately have lines: "\<exists>rest. out_lines md_text = ?o @ [[], l] @ rest \<and> last ?o = p"
    by blast
  have "\<exists>a rest. normalize_list_boundaries md_text = a @ p @ [LF, LF] @ l @ LF # rest
             \<and> (a = [] \<or> last a = LF)
             \<and> normalize_list_boundaries (join_nl (pre @ [p])) = a @ p @ [LF]"
    using assms(1) assms(2) assms(4) by (rule blank_line_in_text)
  then show ?thesis using lines by blast
qed

theorem list_item_after_text_line_witness:
  "splitlines (ustr ''intro'' @ [LF] @ ustr ''- b'') = [] @ [ustr ''intro'', ustr ''- b''] @ []
   \<and> strip (ustr ''intro'') \<noteq> [] \<and> \<not> list_start_match (ustr ''intro'')
   \<and> list_start_match (ustr ''- b'')
   \<and> normalize_list_boundaries (ustr ''intro'' @ [LF] @ ustr ''- b'')
       = ustr ''intro'' @ [LF, LF] @ ustr ''- b'' @ [LF]
   \<and> normalize_list_boundaries (join_nl ([] @ [ustr ''intro''])) = ustr ''intro'' @ [LF]
   \<and> out_lines (ustr ''intro'' @ [LF] @ ustr ''- b'') = [ustr ''intro'', [], ustr ''- b'', []]"
proof -
  have h1: "splitlines (ustr ''intro'' @ [LF] @ ustr ''- b'') = [] @ [ustr ''intro'', ustr ''- b''] @ []"
    by (simp add: ustr_def splitlines_def LF_def CR_def is_linebreak_def)
  have h2: "strip (ustr ''intro'') \<noteq> []"
    by (simp add: ustr_def strip_def isspace_def)
  have h3: "\<not> list_start_match (ustr ''intro'')"
    by (simp add: ustr_def list_start_match_def isspace_def is_digit_def)
  have h4: "list_start_match (ustr ''- b'')"
    by (simp add: ustr_def list_start_match_def isspace_def is_digit_def)
  have o: "out_lines (ustr ''intro'' @ [LF] @ ustr ''- b'') = [ustr ''intro'', [], ustr ''- b'', []]"
    by (simp add: ustr_def out_lines_def splitlines_def LF_def CR_def is_linebreak_def
        nlb_loop.simps(2) list_start_match_def strip_def isspace_def is_digit_def)
  have n: "normalize_list_boundaries (ustr ''intro'' @ [LF] @ ustr ''- b'')
       = ustr ''intro'' @ [LF, LF] @ ustr ''- b'' @ [LF]"
    using o by (simp add: normalize_list_boundaries_def)
  have n1: "normalize_list_boundaries (join_nl ([] @ [ustr ''intro''])) = ustr ''intro'' @ [LF]"
    by (simp add: normalize_list_boundaries_def ustr_def out_lines_def splitlines_def LF_def CR_def
        is_linebreak_def nlb_loop.simps(2) list_start_match_def strip_def isspace_def is_digit_def)
  show ?thesis
    using list_item_after_text_line [OF h1 h2 h3 h4] h1 h2 h3 h4 o n n1 by blast
qed

section \<open>A list item after any non-blank line\<close>

text \<open>
  Claim C10. The blank line is inserted before every list item \<open>l\<close> whose preceding line
  \<open>p\<close> is not blank, whatever \<open>p\<close> is: the returned text is the text returned for the
  input up to \<open>p\<close>, which ends with the line \<open>p\<close> and its newline, then one more newline,
  then the line \<open>l\<close> and its newline. A list item is never blank, so this includes the
  case where \<open>p\<close> is a list item: two consecutive list items of the input are separated
  by an inserted empty line in the output.
\<close>

theorem list_item_after_nonblank_line:
  assumes "splitlines md_text = pre @ [p, l] @ post" and "list_start_match l"
  shows "(list_start_match p \<longrightarrow> strip p \<noteq> []) \<and>
         (strip p \<noteq> [] \<longrightarrow>
            (\<exists>a rest. normalize_list_boundaries md_text = a @ p @ [LF, LF] @ l @ LF # rest
              \<and> (a = [] \<or> last a = LF)
              \<and> normalize_list_boundaries (join_nl (pre @ [p])) = a @ p @ [LF])
          \<and> (\<exists>rest. out_lines md_text = fst (nlb_loop (pre @ [p]) ([], True)) @ [[], l] @ rest
              \<and> last (fst (nlb_loop (pre @ [p]) ([], True))) = p))"
proof (intro conjI impI)
  assume "list_start_match p"
  then show "strip p \<noteq> []" by (rule list_item_not_blank)
next
  assume nb: "strip p \<noteq> []"
  show "\<exists>a rest. normalize_list_boundaries md_text = a @ p @ [LF, LF] @ l @ LF # rest
             \<and> (a = [] \<or> last a = LF)
             \<and> normalize_list_boundaries (join_nl (pre @ [p])) = a @ p @ [LF]"
    using assms(1) nb assms(2) by (rule blank_line_in_text)
next
  assume nb: "strip p \<noteq> []"
  let ?o = "fst (nlb_loop (pre @ [p]) ([], True))"
  let ?r = "fst (nlb_loop post ([], strip l = []))"
  have "out_lines md_text = ?o @ [[], l] @ ?r \<or> out_lines md_text = ?o @ [[], l] @ (?r @ [[]])"
    using out_lines_cases [of md_text] blank_inserted [OF nb assms(2), of pre post] assms(1)
    by simp
  moreover have "last ?o = p" using nlb_loop_last [of "pre @ [p]" True] by simp
  ultimately show "\<exists>rest. out_lines md_text = ?o @ [[], l] @ rest \<and> last ?o = p" by blast
qed

theorem list_item_after_nonblank_line_witness:
  "splitlines (ustr ''- a'' @ [LF] @ ustr ''- b'') = [] @ [ustr ''- a'', ustr ''- b''] @ []
   \<and> list_start_match (ustr ''- a'') \<and> list_start_match (ustr ''- b'')
   \<and> strip (ustr ''- a'') \<noteq> []
   \<and> normalize_list_boundaries (ustr ''- a'' @ [LF] @ ustr ''- b'')
       = ustr ''- a'' @ [LF, LF] @ ustr ''- b'' @ [LF]
   \<and> normalize_list_boundaries (join_nl ([] @ [ustr ''- a''])) = ustr ''- a'' @ [LF]
   \<and> out_lines (ustr ''- a'' @ [LF] @ ustr ''- b'') = [ustr ''- a'', [], ustr ''- b'', []]"
proof -
  have h1: "splitlines (ustr ''- a'' @ [LF] @ ustr ''- b'') = [] @ [ustr ''- a'', ustr ''- b''] @ []"
    by (simp add: ustr_def splitlines_def LF_def CR_def is_linebreak_def)
  have h2: "list_start_match (ustr ''- b'')"
    by (simp add: ustr_def list_start_match_def isspace_def is_digit_def)
  have h3: "list_start_match (ustr ''- a'')"
    by (simp add: ustr_def list_start_match_def isspace_def is_digit_def)
  note t = list_item_after_nonblank_line [OF h1 h2]
  have h4: "strip (ustr ''- a'') \<noteq> []" using t h3 by blast
  have o: "out_lines (ustr ''- a'' @ [LF] @ ustr ''- b'') = [ustr ''- a'', [], ustr ''- b'', []]"
    by (simp add: ustr_def out_lines_def splitlines_def LF_def CR_def is_linebreak_def
        nlb_loop.simps(2) list_start_match_def strip_def isspace_def is_digit_def)
  have n: "normalize_list_boundaries (ustr ''- a'' @ [LF] @ ustr ''- b'')
       = ustr ''- a'' @ [LF, LF] @ ustr ''- b'' @ [LF]"
    using o by (simp add: normalize_list_boundaries_def)
  have n1: "normalize_list_boundaries (join_nl ([] @ [ustr ''- a''])) = ustr ''- a'' @ [LF]"
    by (simp add: normalize_list_boundaries_def ustr_def out_lines_def splitlines_def LF_def CR_def
        is_linebreak_def nlb_loop.simps(2) list_start_match_def strip_def isspace_def is_digit_def)
  show ?thesis using t h1 h2 h3 h4 o n n1 by blast
qed

section \<open>The end of the result\<close>

text \<open>
  Claim C4, as amended. The claim says that the result always ends with a single trailing
  blank line and that the empty string gives a single blank line. The function guards the
  appended empty line with \<open>if out and out[-1] != ""\<close>. So: the normalizer maps the empty
  string to the empty string; the returned text is empty or ends with a newline, and it is
  empty exactly when the input has no line or one empty line; it ends with exactly one
  newline exactly when one of the last two lines of the input is not empty or the input is
  two empty lines. In particular, when the last line of the input is not empty, the
  returned text is a non-empty text that does not end with a newline, followed by one
  newline. In the list \<open>out\<close> the last line, when there is one, is empty.
\<close>

theorem trailing_newline:
  "normalize_list_boundaries [] = []
   \<and> (normalize_list_boundaries x = [] \<or> last (normalize_list_boundaries x) = LF)
   \<and> (normalize_list_boundaries x = [] \<longleftrightarrow> splitlines x = [] \<or> splitlines x = [[]])
   \<and> (one_trailing_newline (normalize_list_boundaries x) \<longleftrightarrow> single_newline_lines (splitlines x))
   \<and> (splitlines x \<noteq> [] \<and> last (splitlines x) \<noteq> [] \<longrightarrow>
        (\<exists>body. normalize_list_boundaries x = body @ [LF] \<and> body \<noteq> [] \<and> last body \<noteq> LF))
   \<and> (out_lines x \<noteq> [] \<longrightarrow> last (out_lines x) = [])"
proof (intro conjI impI)
  show "normalize_list_boundaries [] = []"
    by (simp add: normalize_list_boundaries_def out_lines_def splitlines_def)
next
  show "normalize_list_boundaries x = [] \<or> last (normalize_list_boundaries x) = LF"
  proof (cases "join_nl (out_lines x) = []")
    case True
    then show ?thesis by (simp add: normalize_list_boundaries_def)
  next
    case False
    then have ne: "out_lines x \<noteq> []" by auto
    then have "last (out_lines x) = []" by (rule out_lines_last)
    then show ?thesis
      using join_nl_last_char [OF ne False] by (simp add: normalize_list_boundaries_def)
  qed
next
  show "normalize_list_boundaries x = [] \<longleftrightarrow> splitlines x = [] \<or> splitlines x = [[]]"
    by (simp add: normalize_list_boundaries_def join_nl_Nil_iff out_lines_Nil_iff
        out_lines_single_empty)
next
  show "one_trailing_newline (normalize_list_boundaries x) \<longleftrightarrow> single_newline_lines (splitlines x)"
    using join_one_trailing [OF out_lines_no_linebreak, of x] out_lines_shape [of x]
    by (simp add: normalize_list_boundaries_def)
next
  assume "out_lines x \<noteq> []"
  then show "last (out_lines x) = []" by (rule out_lines_last)
next
  assume h: "splitlines x \<noteq> [] \<and> last (splitlines x) \<noteq> []"
  let ?o = "fst (nlb_loop (splitlines x) ([], True))"
  have o: "out_lines x = ?o @ [[]]" using h out_lines_nonblank_last by blast
  have ne: "?o \<noteq> []" using h by (simp add: nlb_loop_Nil_iff)
  have la: "last ?o = last (splitlines x)" using h nlb_loop_last [of "splitlines x" True] by simp
  have j: "join_nl ?o \<noteq> [] \<and> last (join_nl ?o) = last (last (splitlines x))"
    using join_nl_last [OF ne] la h by simp
  have "last (splitlines x) \<in> set (splitlines x)" using h by simp
  then have "no_linebreak (last (splitlines x))" using splitlines_no_linebreak [of x] by blast
  moreover have "last (last (splitlines x)) \<in> set (last (splitlines x))" using h by simp
  ultimately have "\<not> is_linebreak (last (last (splitlines x)))" by (simp add: no_linebreak_def)
  then have "last (last (splitlines x)) \<noteq> LF" by (auto simp add: is_linebreak_def LF_def)
  moreover have "normalize_list_boundaries x = join_nl ?o @ [LF]"
    using o join_nl_snoc [OF ne, of "[]"] by (simp add: normalize_list_boundaries_def)
  ultimately show "\<exists>body. normalize_list_boundaries x = body @ [LF] \<and> body \<noteq> [] \<and> last body \<noteq> LF"
    using j by auto
qed

theorem trailing_newline_witness:
  "splitlines (ustr ''ab'') \<noteq> [] \<and> last (splitlines (ustr ''ab'')) \<noteq> []
   \<and> single_newline_lines (splitlines (ustr ''ab''))
   \<and> one_trailing_newline (normalize_list_boundaries (ustr ''ab''))
   \<and> out_lines (ustr ''ab'') \<noteq> [] \<and> last (out_lines (ustr ''ab'')) = []
   \<and> normalize_list_boundaries (ustr ''ab'') = ustr ''ab'' @ [LF]
   \<and> splitlines [LF] = [[]] \<and> normalize_list_boundaries [LF] = []"
proof -
  have s: "splitlines (ustr ''ab'') = [ustr ''ab'']"
    by (simp add: ustr_def splitlines_def CR_def is_linebreak_def)
  have o: "out_lines (ustr ''ab'') = [ustr ''ab'', []]"
    by (simp add: out_lines_def splitlines_def CR_def is_linebreak_def nlb_loop.simps(2) Let_def
        ustr_def list_start_match_def strip_def isspace_def is_digit_def)
  have n: "normalize_list_boundaries (ustr ''ab'') = ustr ''ab'' @ [LF]"
    by (simp add: normalize_list_boundaries_def o)
  have e: "ustr ''ab'' \<noteq> []" by (simp add: ustr_def)
  have sl: "single_newline_lines [ustr ''ab'']" using e by (simp add: single_newline_lines_def)
  have l: "splitlines [LF] = [[]]" by (simp add: splitlines_def LF_def CR_def is_linebreak_def)
  show ?thesis
    using trailing_newline [of "ustr ''ab''"] trailing_newline [of "[LF]"] s o n e sl l by simp
qed

text \<open>
  The claim as stated fails: the empty string is returned as it is, with no newline, and
  an input that ends with three newlines keeps two of them.
\<close>

theorem trailing_newline_counterexample:
  "normalize_list_boundaries [] = [] \<and> normalize_list_boundaries [] \<noteq> [LF]
   \<and> normalize_list_boundaries (ustr ''a'' @ [LF, LF, LF]) = ustr ''a'' @ [LF, LF]
   \<and> \<not> one_trailing_newline (normalize_list_boundaries (ustr ''a'' @ [LF, LF, LF]))"
  by (simp add: normalize_list_boundaries_def out_lines_def splitlines_def ustr_def LF_def CR_def
      is_linebreak_def nlb_loop.simps(2) Let_def list_start_match_def strip_def isspace_def
      is_digit_def one_trailing_newline_def)

section \<open>Normalizing twice\<close>

text \<open>
  Claim C1, as amended. The claim says that the normalizer is idempotent on every string.
  The result of the first pass is joined with newlines, and \<open>splitlines\<close> then drops one
  trailing empty line; the appended empty line is only added after a non-empty last line.
  So: normalizing the result again gives the same text exactly when the lines of the
  input do not end with two empty lines. In particular this holds for every stripped
  text, which is what the converter passes to the normalizer.
\<close>

theorem normalize_idempotent:
  "((normalize_list_boundaries (normalize_list_boundaries x) = normalize_list_boundaries x)
      = (\<not> two_trailing_empty (splitlines x)))
   \<and> normalize_list_boundaries (normalize_list_boundaries (strip t))
       = normalize_list_boundaries (strip t)"
proof -
  have iff: "(normalize_list_boundaries (normalize_list_boundaries y) = normalize_list_boundaries y)
     = (\<not> two_trailing_empty (splitlines y))" for y
  proof (cases "out_lines y = []")
    case True
    then have n: "normalize_list_boundaries y = []" by (simp add: normalize_list_boundaries_def)
    have "normalize_list_boundaries [] = []"
      by (simp add: normalize_list_boundaries_def out_lines_def splitlines_def)
    moreover have "\<not> two_trailing_empty (splitlines y)"
      using True out_lines_two_trailing_empty [of y] by (simp add: two_trailing_empty_Nil)
    ultimately show ?thesis using n by simp
  next
    case False
    then have "last (out_lines y) = []" by (rule out_lines_last)
    then obtain b where b: "out_lines y = b @ [[]]"
      using False append_butlast_last_id [of "out_lines y"] by metis
    have t: "two_trailing_empty (splitlines y) \<longleftrightarrow> b \<noteq> [] \<and> last b = []"
      using out_lines_two_trailing_empty [of y] b by (simp add: two_trailing_empty_snoc)
    have again: "normalize_list_boundaries (normalize_list_boundaries y) =
        join_nl (if b \<noteq> [] \<and> last b \<noteq> [] then b @ [[]] else b)"
      using out_lines_again [OF b] by (simp add: normalize_list_boundaries_def)
    have once: "normalize_list_boundaries y = join_nl (b @ [[]])"
      using b by (simp add: normalize_list_boundaries_def)
    show ?thesis
    proof (cases "b = []")
      case True
      then show ?thesis using t again once by simp
    next
      case ne: False
      show ?thesis
      proof (cases "last b = []")
        case True
        then show ?thesis using t again once ne join_nl_snoc_neq [OF ne, of "[]"] by auto
      next
        case False
        then show ?thesis using t again once ne by simp
      qed
    qed
  qed
  show ?thesis using iff [of x] iff [of "strip t"] strip_no_two_trailing_empty [of t] by blast
qed

theorem normalize_idempotent_witness:
  "\<not> two_trailing_empty (splitlines (ustr ''a'' @ [LF] @ ustr ''- b'' @ [LF, LF]))
   \<and> normalize_list_boundaries (ustr ''a'' @ [LF] @ ustr ''- b'' @ [LF, LF])
       = ustr ''a'' @ [LF, LF] @ ustr ''- b'' @ [LF]
   \<and> normalize_list_boundaries (ustr ''a'' @ [LF, LF] @ ustr ''- b'' @ [LF])
       = ustr ''a'' @ [LF, LF] @ ustr ''- b'' @ [LF]
   \<and> strip (ustr '' a '' @ [LF] @ ustr ''- b '' @ [LF, LF]) = ustr ''a '' @ [LF] @ ustr ''- b''
   \<and> normalize_list_boundaries (normalize_list_boundaries (ustr ''a '' @ [LF] @ ustr ''- b''))
       = normalize_list_boundaries (ustr ''a '' @ [LF] @ ustr ''- b'')"
proof -
  have h: "\<not> two_trailing_empty (splitlines (ustr ''a'' @ [LF] @ ustr ''- b'' @ [LF, LF]))"
    by (simp add: two_trailing_empty_def splitlines_def ustr_def LF_def CR_def is_linebreak_def)
  have n: "normalize_list_boundaries (ustr ''a'' @ [LF] @ ustr ''- b'' @ [LF, LF])
       = ustr ''a'' @ [LF, LF] @ ustr ''- b'' @ [LF]"
    by (simp add: normalize_list_boundaries_def out_lines_def splitlines_def ustr_def LF_def CR_def
      is_linebreak_def nlb_loop.simps(2) Let_def list_start_match_def strip_def isspace_def is_digit_def)
  have s: "strip (ustr '' a '' @ [LF] @ ustr ''- b '' @ [LF, LF]) = ustr ''a '' @ [LF] @ ustr ''- b''"
    by (simp add: strip_def ustr_def LF_def isspace_def)
  show ?thesis
    using normalize_idempotent [of "ustr ''a'' @ [LF] @ ustr ''- b'' @ [LF, LF]"
        "ustr '' a '' @ [LF] @ ustr ''- b '' @ [LF, LF]"] h n s
    by simp
qed

text \<open>
  The claim as stated fails for a text that ends with three newlines: the first pass
  keeps two of them, the second pass one.
\<close>

theorem normalize_idempotent_counterexample:
  "normalize_list_boundaries (ustr ''a'' @ [LF, LF, LF]) = ustr ''a'' @ [LF, LF]
   \<and> normalize_list_boundaries (normalize_list_boundaries (ustr ''a'' @ [LF, LF, LF])) = ustr ''a'' @ [LF]
   \<and> normalize_list_boundaries (normalize_list_boundaries (ustr ''a'' @ [LF, LF, LF]))
        \<noteq> normalize_list_boundaries (ustr ''a'' @ [LF, LF, LF])"
  by (simp add: normalize_list_boundaries_def out_lines_def splitlines_def ustr_def LF_def CR_def
      is_linebreak_def nlb_loop.simps(2) Let_def list_start_match_def strip_def isspace_def is_digit_def)


section \<open>A timestamp that does not parse\<close>

text \<open>
  Claim C2. When \<open>strptime\<close> rejects the creation timestamp of an entry, the \<open>try\<close> block
  ends in its handler: the display value \<open>date_fmt\<close> is the raw timestamp, nothing is
  appended to \<open>dates\<close>, and no exception leaves the block (\<open>format_date\<close> has no error
  result). So the parts of the entry show the raw timestamp, and the loop goes on to the
  next entry with \<open>dates\<close> as it was.
\<close>

theorem unparsed_timestamp:
  assumes "dict_get entry (ustr ''creationDate'') (JStr []) = Inr date_str"
    and "strptime lib date_str = None"
  shows "format_date lib entry date_str = (date_str, None)
    \<and> (\<forall>p d. render_entry lib pd vd ad i entry = Inr (p, d) \<longrightarrow> part_date_fmt p = date_str \<and> d = None)
    \<and> (\<forall>p d rest parts dates. render_entry lib pd vd ad i entry = Inr (p, d) \<longrightarrow>
          entries_loop lib pd vd ad i (entry # rest) (parts, dates)
            = entries_loop lib pd vd ad (Suc i) rest (parts @ [p], dates))"
proof -
  have raw: "format_date lib entry date_str = (date_str, None)"
    using assms(2) by (simp add: format_date_def)
  have ent: "part_date_fmt p = date_str \<and> d = None"
    if "render_entry lib pd vd ad i entry = Inr (p, d)" for p d
    using render_entry_date [OF that] assms(1) raw by auto
  have "entries_loop lib pd vd ad i (entry # rest) (parts, dates)
            = entries_loop lib pd vd ad (Suc i) rest (parts @ [p], dates)"
    if "render_entry lib pd vd ad i entry = Inr (p, d)" for p d rest parts dates
    using that ent [OF that] by simp
  then show ?thesis using raw ent by blast
qed

theorem unparsed_timestamp_witness:
  "dict_get (JObj [(ustr ''creationDate'', JStr (ustr ''not-a-date''))]) (ustr ''creationDate'') (JStr [])
      = Inr (JStr (ustr ''not-a-date''))
   \<and> strptime example_lib (JStr (ustr ''not-a-date'')) = None
   \<and> format_date example_lib (JObj [(ustr ''creationDate'', JStr (ustr ''not-a-date''))])
        (JStr (ustr ''not-a-date'')) = (JStr (ustr ''not-a-date''), None)
   \<and> render_entry example_lib (ustr ''photos'') (ustr ''videos'') (ustr ''audios'') 1
        (JObj [(ustr ''creationDate'', JStr (ustr ''not-a-date''))])
       = Inr (\<lparr>part_date_fmt = JStr (ustr ''not-a-date''), part_preview = ustr ''Entry 1'',
               part_location_html = [], part_wx_line = JStr [], part_text_html = [],
               part_media_block = []\<rparr>, None)
   \<and> entries_loop example_lib (ustr ''photos'') (ustr ''videos'') (ustr ''audios'') 1
        [JObj [(ustr ''creationDate'', JStr (ustr ''not-a-date''))]] ([], [])
       = Inr ([\<lparr>part_date_fmt = JStr (ustr ''not-a-date''), part_preview = ustr ''Entry 1'',
               part_location_html = [], part_wx_line = JStr [], part_text_html = [],
               part_media_block = []\<rparr>], [])"
proof -
  let ?e = "JObj [(ustr ''creationDate'', JStr (ustr ''not-a-date''))]"
  have h1: "dict_get ?e (ustr ''creationDate'') (JStr []) = Inr (JStr (ustr ''not-a-date''))"
    by (simp add: dict_get_def)
  have h2: "strptime example_lib (JStr (ustr ''not-a-date'')) = None"
    by (simp add: example_lib_def ustr_def)
  have r: "render_entry example_lib (ustr ''photos'') (ustr ''videos'') (ustr ''audios'') 1 ?e
       = Inr (\<lparr>part_date_fmt = JStr (ustr ''not-a-date''), part_preview = ustr ''Entry 1'',
               part_location_html = [], part_wx_line = JStr [], part_text_html = [],
               part_media_block = []\<rparr>, None)"
    by (simp add: eval_defs)
  show ?thesis
    using unparsed_timestamp [OF h1 h2, of "ustr ''photos''" "ustr ''videos''" "ustr ''audios''" 1] h1 h2 r
    by simp
qed

section \<open>The timezone of an entry\<close>

text \<open>
  Claim C3, as amended. The claim says that an entry with a well-formed timestamp is shown
  in its own zone when the identifier resolves and in UTC otherwise, also when the
  identifier does not resolve. The lookup \<open>pytz.timezone(timeZone)\<close> is inside the \<open>try\<close>
  block, and its exception ends in the handler. So, for a timestamp that parses: with an
  identifier that is given, resolves to a zone and can show the date there, the display
  value is the instant formatted in that zone; with no identifier (none, \<open>null\<close> or the
  empty string) it is the instant formatted in UTC; with an identifier that does not
  resolve it is the raw timestamp, and nothing is appended to \<open>dates\<close>.
\<close>

theorem timezone_conversion:
  assumes "strptime lib date_str = Some date"
    and "dict_get entry (ustr ''timeZone'') JNull = Inr timeZone"
  shows "(truthy timeZone \<and> timezone lib timeZone = Some tz \<and> (tz = UTC \<or> representable lib date tz) \<longrightarrow>
            format_date lib entry date_str =
              (JStr (strftime lib (ustr ''%d %b %Y %I:%M %p'') \<lparr>instant = date, zone = tz\<rparr>),
               Some \<lparr>instant = date, zone = tz\<rparr>))
    \<and> (\<not> truthy timeZone \<longrightarrow>
            format_date lib entry date_str =
              (JStr (strftime lib (ustr ''%d %b %Y %I:%M %p'') \<lparr>instant = date, zone = UTC\<rparr>),
               Some \<lparr>instant = date, zone = UTC\<rparr>))
    \<and> (truthy timeZone \<and> timezone lib timeZone = None \<longrightarrow>
            format_date lib entry date_str = (date_str, None))"
proof (intro conjI impI)
  assume "truthy timeZone \<and> timezone lib timeZone = Some tz \<and> (tz = UTC \<or> representable lib date tz)"
  then show "format_date lib entry date_str =
      (JStr (strftime lib (ustr ''%d %b %Y %I:%M %p'') \<lparr>instant = date, zone = tz\<rparr>),
       Some \<lparr>instant = date, zone = tz\<rparr>)"
    using assms by (simp add: format_date_def astimezone_def)
next
  assume "\<not> truthy timeZone"
  then show "format_date lib entry date_str =
      (JStr (strftime lib (ustr ''%d %b %Y %I:%M %p'') \<lparr>instant = date, zone = UTC\<rparr>),
       Some \<lparr>instant = date, zone = UTC\<rparr>)"
    using assms by (simp add: format_date_def astimezone_def)
next
  assume "truthy timeZone \<and> timezone lib timeZone = None"
  then show "format_date lib entry date_str = (date_str, None)"
    using assms by (simp add: format_date_def)
qed


theorem timezone_conversion_witness:
  "strptime example_lib (JStr (ustr ''2023-10-05T14:30:00Z'')) = Some 1696516200
   \<and> dict_get (JObj [(ustr ''creationDate'', JStr (ustr ''2023-10-05T14:30:00Z'')),
                    (ustr ''timeZone'', JStr (ustr ''America/New_York''))]) (ustr ''timeZone'') JNull
       = Inr (JStr (ustr ''America/New_York''))
   \<and> truthy (JStr (ustr ''America/New_York''))
   \<and> timezone example_lib (JStr (ustr ''America/New_York'')) = Some (ustr ''America/New_York'')
   \<and> representable example_lib 1696516200 (ustr ''America/New_York'')
   \<and> format_date example_lib
        (JObj [(ustr ''creationDate'', JStr (ustr ''2023-10-05T14:30:00Z'')),
               (ustr ''timeZone'', JStr (ustr ''America/New_York''))])
        (JStr (ustr ''2023-10-05T14:30:00Z''))
       = (JStr (ustr ''05 Oct 2023 10:30 AM''),
          Some \<lparr>instant = 1696516200, zone = ustr ''America/New_York''\<rparr>)
   \<and> dict_get (JObj [(ustr ''creationDate'', JStr (ustr ''2023-10-05T14:30:00Z''))]) (ustr ''timeZone'') JNull
       = Inr JNull
   \<and> \<not> truthy JNull
   \<and> format_date example_lib (JObj [(ustr ''creationDate'', JStr (ustr ''2023-10-05T14:30:00Z''))])
        (JStr (ustr ''2023-10-05T14:30:00Z''))
       = (JStr (ustr ''05 Oct 2023 02:30 PM''), Some \<lparr>instant = 1696516200, zone = UTC\<rparr>)
   \<and> dict_get (JObj [(ustr ''creationDate'', JStr (ustr ''2023-10-05T14:30:00Z'')),
                    (ustr ''timeZone'', JStr (ustr ''Mars/Phobos''))]) (ustr ''timeZone'') JNull
       = Inr (JStr (ustr ''Mars/Phobos''))
   \<and> truthy (JStr (ustr ''Mars/Phobos''))
   \<and> timezone example_lib (JStr (ustr ''Mars/Phobos'')) = None"
proof -
  have p: "strptime example_lib (JStr (ustr ''2023-10-05T14:30:00Z'')) = Some 1696516200"
    by (simp add: example_lib_def)
  have g1: "dict_get (JObj [(ustr ''creationDate'', JStr (ustr ''2023-10-05T14:30:00Z'')),
                    (ustr ''timeZone'', JStr (ustr ''America/New_York''))]) (ustr ''timeZone'') JNull
       = Inr (JStr (ustr ''America/New_York''))"
    by (simp add: dict_get_def ustr_def)
  have g2: "dict_get (JObj [(ustr ''creationDate'', JStr (ustr ''2023-10-05T14:30:00Z''))]) (ustr ''timeZone'') JNull
       = Inr JNull"
    by (simp add: dict_get_def ustr_def)
  have t: "truthy (JStr (ustr ''America/New_York''))" by (simp add: ustr_def)
  have z: "timezone example_lib (JStr (ustr ''America/New_York'')) = Some (ustr ''America/New_York'')"
    by (simp add: example_lib_def)
  have r: "representable example_lib 1696516200 (ustr ''America/New_York'')"
    by (simp add: example_lib_def)
  have f1: "strftime example_lib (ustr ''%d %b %Y %I:%M %p'')
        \<lparr>instant = 1696516200, zone = ustr ''America/New_York''\<rparr> = ustr ''05 Oct 2023 10:30 AM''"
    by (simp add: example_lib_def example_strftime_def)
  have f2: "strftime example_lib (ustr ''%d %b %Y %I:%M %p'')
        \<lparr>instant = 1696516200, zone = UTC\<rparr> = ustr ''05 Oct 2023 02:30 PM''"
    by (simp add: example_lib_def example_strftime_def UTC_def ustr_def)
  have g3: "dict_get (JObj [(ustr ''creationDate'', JStr (ustr ''2023-10-05T14:30:00Z'')),
                    (ustr ''timeZone'', JStr (ustr ''Mars/Phobos''))]) (ustr ''timeZone'') JNull
       = Inr (JStr (ustr ''Mars/Phobos''))"
    by (simp add: dict_get_def ustr_def)
  have t3: "truthy (JStr (ustr ''Mars/Phobos''))" by (simp add: ustr_def)
  have z3: "timezone example_lib (JStr (ustr ''Mars/Phobos'')) = None"
    by (simp add: example_lib_def ustr_def)
  show ?thesis
    using timezone_conversion [OF p g1, of "ustr ''America/New_York''"]
      timezone_conversion [OF p g2, of "ustr ''America/New_York''"]
      timezone_conversion [OF p g3, of "ustr ''America/New_York''"] p g1 g2 g3 t t3 z z3 r f1 f2
    by simp
qed

text \<open>
  The claim as stated fails for an unknown zone: the timestamp parses, and the display
  value is the raw timestamp, not the date in UTC.
\<close>

theorem timezone_conversion_counterexample:
  "strptime example_lib (JStr (ustr ''2023-10-05T14:30:00Z'')) = Some 1696516200
   \<and> timezone example_lib (JStr (ustr ''Mars/Phobos'')) = None
   \<and> format_date example_lib
        (JObj [(ustr ''creationDate'', JStr (ustr ''2023-10-05T14:30:00Z'')),
               (ustr ''timeZone'', JStr (ustr ''Mars/Phobos''))])
        (JStr (ustr ''2023-10-05T14:30:00Z''))
       = (JStr (ustr ''2023-10-05T14:30:00Z''), None)
   \<and> JStr (ustr ''2023-10-05T14:30:00Z'')
       \<noteq> JStr (strftime example_lib (ustr ''%d %b %Y %I:%M %p'') \<lparr>instant = 1696516200, zone = UTC\<rparr>)"
  by (simp add: format_date_def dict_get_def example_lib_def example_strftime_def ustr_def UTC_def)


section \<open>The date range of the document\<close>

text \<open>
  Claim C9, as amended. The claim says that the heading is computed from the earliest and
  the latest of the instants that parsed. The list \<open>dates\<close> gets the date of an entry at
  the end of the \<open>try\<close> block, after the timezone lookup, so an entry whose timestamp
  parses and whose zone is unknown adds nothing. So, for a run that completes: the
  heading is computed from the dates that the entries added to \<open>dates\<close> (the entries whose
  \<open>try\<close> block reached its end); with none it is the phrase \<open>No date information\<close>,
  otherwise it names one of these dates that no other precedes and one that no other
  follows. When no timestamp parses there is no such date.
\<close>

theorem date_range_heading:
  assumes "convert_dayone_json_to_single_html lib data pd vd ad = Inr doc"
    and "subscript data (ustr ''entries'') = Inr es"
    and "iterate es = Inr entry_list"
  shows "(List.map_filter (entry_date lib) entry_list = [] \<longrightarrow>
            doc_date_range doc = ustr ''No date information'')
    \<and> (List.map_filter (entry_date lib) entry_list \<noteq> [] \<longrightarrow>
          (\<exists>a b. a \<in> set (List.map_filter (entry_date lib) entry_list)
             \<and> b \<in> set (List.map_filter (entry_date lib) entry_list)
             \<and> (\<forall>d \<in> set (List.map_filter (entry_date lib) entry_list).
                   instant a \<le> instant d \<and> instant d \<le> instant b)
             \<and> doc_date_range doc = ustr ''from '' @ strftime lib (ustr ''%d %b %Y'') a
                  @ ustr '' to '' @ strftime lib (ustr ''%d %b %Y'') b))
    \<and> ((\<forall>e \<in> set entry_list. \<forall>s. dict_get e (ustr ''creationDate'') (JStr []) = Inr s
            \<longrightarrow> strptime lib s = None) \<longrightarrow>
          doc_date_range doc = ustr ''No date information'')"
proof -
  let ?ds = "List.map_filter (entry_date lib) entry_list"
  from assms obtain parts dates where
    l: "entries_loop lib pd vd ad 1 entry_list ([], []) = Inr (parts, dates)"
    and doc: "doc = \<lparr>doc_date_range = date_range_str lib dates, doc_entries = parts\<rparr>"
    by (auto simp add: convert_dayone_json_to_single_html_def bind_Inr_iff)
  have dates: "dates = ?ds" using entries_loop_dates [OF l] by simp
  have range: "doc_date_range doc = date_range_str lib ?ds" using doc dates by simp
  have none: "?ds = [] \<Longrightarrow> doc_date_range doc = ustr ''No date information''"
    using range by (simp add: date_range_str_def)
  have some: "?ds \<noteq> [] \<Longrightarrow> \<exists>a b. a \<in> set ?ds \<and> b \<in> set ?ds
             \<and> (\<forall>d \<in> set ?ds. instant a \<le> instant d \<and> instant d \<le> instant b)
             \<and> doc_date_range doc = ustr ''from '' @ strftime lib (ustr ''%d %b %Y'') a
                  @ ustr '' to '' @ strftime lib (ustr ''%d %b %Y'') b"
    using date_range_str_bounds [of ?ds lib] range by simp
  have unparsed: "doc_date_range doc = ustr ''No date information''"
    if "\<forall>e \<in> set entry_list. \<forall>s. dict_get e (ustr ''creationDate'') (JStr []) = Inr s
            \<longrightarrow> strptime lib s = None"
  proof -
    have "entry_date lib e = None" if "e \<in> set entry_list" for e
      using entry_date_unparsed [of e lib] \<open>\<forall>e \<in> set entry_list. _\<close> that by blast
    then have "?ds = []" by (rule map_filter_all_None)
    then show ?thesis by (rule none)
  qed
  show ?thesis using none some unparsed by blast
qed

theorem date_range_heading_witness:
  "convert_dayone_json_to_single_html example_lib journal_two (ustr ''photos'') (ustr ''videos'') (ustr ''audios'')
     = Inr \<lparr>doc_date_range = ustr ''from 01 Jan 2023 to 05 Oct 2023'',
          doc_entries =
            [\<lparr>part_date_fmt = JStr (ustr ''05 Oct 2023 02:30 PM''), part_preview = ustr ''Entry 1'',
              part_location_html = [], part_wx_line = JStr [], part_text_html = [],
              part_media_block = []\<rparr>,
             \<lparr>part_date_fmt = JStr (ustr ''01 Jan 2023 12:00 AM''), part_preview = ustr ''Entry 2'',
              part_location_html = [], part_wx_line = JStr [], part_text_html = [],
              part_media_block = []\<rparr>]\<rparr>
   \<and> List.map_filter (entry_date example_lib)
        [JObj [(ustr ''creationDate'', JStr (ustr ''2023-10-05T14:30:00Z''))],
         JObj [(ustr ''creationDate'', JStr (ustr ''2023-01-01T00:00:00Z''))]]
       = [\<lparr>instant = 1696516200, zone = UTC\<rparr>, \<lparr>instant = 1672531200, zone = UTC\<rparr>]
   \<and> convert_dayone_json_to_single_html example_lib journal_unparsed (ustr ''photos'') (ustr ''videos'') (ustr ''audios'')
     = Inr \<lparr>doc_date_range = ustr ''No date information'',
          doc_entries =
            [\<lparr>part_date_fmt = JStr (ustr ''not-a-date''), part_preview = ustr ''Entry 1'',
              part_location_html = [], part_wx_line = JStr [], part_text_html = [],
              part_media_block = []\<rparr>]\<rparr>
   \<and> strptime example_lib (JStr (ustr ''not-a-date'')) = None"
proof -
  let ?a = "JObj [(ustr ''creationDate'', JStr (ustr ''2023-10-05T14:30:00Z''))]"
  let ?b = "JObj [(ustr ''creationDate'', JStr (ustr ''2023-01-01T00:00:00Z''))]"
  let ?n = "JObj [(ustr ''creationDate'', JStr (ustr ''not-a-date''))]"
  have c2: "convert_dayone_json_to_single_html example_lib journal_two (ustr ''photos'') (ustr ''videos'') (ustr ''audios'')
     = Inr \<lparr>doc_date_range = ustr ''from 01 Jan 2023 to 05 Oct 2023'',
          doc_entries =
            [\<lparr>part_date_fmt = JStr (ustr ''05 Oct 2023 02:30 PM''), part_preview = ustr ''Entry 1'',
              part_location_html = [], part_wx_line = JStr [], part_text_html = [],
              part_media_block = []\<rparr>,
             \<lparr>part_date_fmt = JStr (ustr ''01 Jan 2023 12:00 AM''), part_preview = ustr ''Entry 2'',
              part_location_html = [], part_wx_line = JStr [], part_text_html = [],
              part_media_block = []\<rparr>]\<rparr>"
    by (simp add: journal_two_def eval_defs)
  have s2: "subscript journal_two (ustr ''entries'') = Inr (JArr [?a, ?b])"
    by (simp add: journal_two_def subscript_def)
  have i2: "iterate (JArr [?a, ?b]) = Inr [?a, ?b]" by (simp add: iterate_def)
  have m2: "List.map_filter (entry_date example_lib) [?a, ?b]
       = [\<lparr>instant = 1696516200, zone = UTC\<rparr>, \<lparr>instant = 1672531200, zone = UTC\<rparr>]"
    by (simp add: List.map_filter_simps entry_date_def dict_get_def format_date_def astimezone_def
        example_lib_def ustr_def)
  have c1: "convert_dayone_json_to_single_html example_lib journal_unparsed (ustr ''photos'') (ustr ''videos'') (ustr ''audios'')
     = Inr \<lparr>doc_date_range = ustr ''No date information'',
          doc_entries =
            [\<lparr>part_date_fmt = JStr (ustr ''not-a-date''), part_preview = ustr ''Entry 1'',
              part_location_html = [], part_wx_line = JStr [], part_text_html = [],
              part_media_block = []\<rparr>]\<rparr>"
    by (simp add: journal_unparsed_def eval_defs)
  have s1: "subscript journal_unparsed (ustr ''entries'') = Inr (JArr [?n])"
    by (simp add: journal_unparsed_def subscript_def)
  have i1: "iterate (JArr [?n]) = Inr [?n]" by (simp add: iterate_def)
  have p: "strptime example_lib (JStr (ustr ''not-a-date'')) = None"
    by (simp add: example_lib_def ustr_def)
  show ?thesis
    using date_range_heading [OF c2 s2 i2] date_range_heading [OF c1 s1 i1] c2 m2 c1 p
    by simp
qed

text \<open>
  The claim as stated fails when the entry with the earliest timestamp names an unknown
  zone: both timestamps parse, and the heading starts at the later one.
\<close>

theorem date_range_heading_counterexample:
  "strptime example_lib (JStr (ustr ''2023-01-01T00:00:00Z'')) = Some 1672531200
   \<and> strptime example_lib (JStr (ustr ''2023-10-05T14:30:00Z'')) = Some 1696516200
   \<and> convert_dayone_json_to_single_html example_lib journal_unknown_zone
        (ustr ''photos'') (ustr ''videos'') (ustr ''audios'')
     = Inr \<lparr>doc_date_range = ustr ''from 05 Oct 2023 to 05 Oct 2023'',
          doc_entries =
            [\<lparr>part_date_fmt = JStr (ustr ''2023-01-01T00:00:00Z''), part_preview = ustr ''Entry 1'',
              part_location_html = [], part_wx_line = JStr [], part_text_html = [],
              part_media_block = []\<rparr>,
             \<lparr>part_date_fmt = JStr (ustr ''05 Oct 2023 02:30 PM''), part_preview = ustr ''Entry 2'',
              part_location_html = [], part_wx_line = JStr [], part_text_html = [],
              part_media_block = []\<rparr>]\<rparr>"
  by (simp add: journal_unknown_zone_def eval_defs)


section \<open>The weather line\<close>

text \<open>
  Claim C7. The source takes the temperature as present when it is not \<open>None\<close> and the
  description as present when it is true, which for a string means not empty. With both
  present the line is the temperature to one decimal (\<open>s\<close>, what \<open>format(t, ".1f")\<close> gives),
  the degree sign, \<open>C, \<close> and the description; with the temperature only it is the
  temperature, the degree sign and \<open>C\<close>; with the description only it is the description;
  with neither it is empty. An entry with no weather has neither.
\<close>

theorem weather_line:
  assumes "dict_get entry (ustr ''weather'') (JObj []) = Inr (JObj kvs)"
  shows "(map_of kvs (ustr ''temperatureCelsius'') = Some t \<and> t \<noteq> JNull \<and> format_1f lib t = Inr s
            \<and> map_of kvs (ustr ''conditionsDescription'') = Some (JStr d) \<and> d \<noteq> [] \<longrightarrow>
          wx_line lib entry = Inr (JStr (s @ [176] @ ustr ''C, '' @ d)))
    \<and> (map_of kvs (ustr ''temperatureCelsius'') = Some t \<and> t \<noteq> JNull \<and> format_1f lib t = Inr s
            \<and> map_of kvs (ustr ''conditionsDescription'') \<in> {None, Some JNull, Some (JStr [])} \<longrightarrow>
          wx_line lib entry = Inr (JStr (s @ [176] @ ustr ''C'')))
    \<and> (map_of kvs (ustr ''temperatureCelsius'') \<in> {None, Some JNull}
            \<and> map_of kvs (ustr ''conditionsDescription'') = Some (JStr d) \<and> d \<noteq> [] \<longrightarrow>
          wx_line lib entry = Inr (JStr d))
    \<and> (map_of kvs (ustr ''temperatureCelsius'') \<in> {None, Some JNull}
            \<and> map_of kvs (ustr ''conditionsDescription'') \<in> {None, Some JNull, Some (JStr [])} \<longrightarrow>
          wx_line lib entry = Inr (JStr []))"
proof (intro conjI impI)
  assume "map_of kvs (ustr ''temperatureCelsius'') = Some t \<and> t \<noteq> JNull \<and> format_1f lib t = Inr s
            \<and> map_of kvs (ustr ''conditionsDescription'') = Some (JStr d) \<and> d \<noteq> []"
  then show "wx_line lib entry = Inr (JStr (s @ [176] @ ustr ''C, '' @ d))"
    using assms by (simp add: wx_line_def dict_get_def fstr_def)
next
  assume "map_of kvs (ustr ''temperatureCelsius'') = Some t \<and> t \<noteq> JNull \<and> format_1f lib t = Inr s
            \<and> map_of kvs (ustr ''conditionsDescription'') \<in> {None, Some JNull, Some (JStr [])}"
  then show "wx_line lib entry = Inr (JStr (s @ [176] @ ustr ''C''))"
    using assms by (auto simp add: wx_line_def dict_get_def)
next
  assume "map_of kvs (ustr ''temperatureCelsius'') \<in> {None, Some JNull}
            \<and> map_of kvs (ustr ''conditionsDescription'') = Some (JStr d) \<and> d \<noteq> []"
  then show "wx_line lib entry = Inr (JStr d)"
    using assms by (auto simp add: wx_line_def dict_get_def)
next
  assume "map_of kvs (ustr ''temperatureCelsius'') \<in> {None, Some JNull}
            \<and> map_of kvs (ustr ''conditionsDescription'') \<in> {None, Some JNull, Some (JStr [])}"
  then show "wx_line lib entry = Inr (JStr [])"
    using assms by (auto simp add: wx_line_def dict_get_def)
qed

theorem weather_line_witness:
  "wx_line example_lib (JObj [(ustr ''weather'',
      JObj [(ustr ''temperatureCelsius'', JFloat 21), (ustr ''conditionsDescription'', JStr (ustr ''Clear''))])])
     = Inr (JStr (ustr ''21.0'' @ [176] @ ustr ''C, Clear''))
   \<and> wx_line example_lib (JObj [(ustr ''weather'', JObj [(ustr ''temperatureCelsius'', JFloat 21)])])
     = Inr (JStr (ustr ''21.0'' @ [176] @ ustr ''C''))
   \<and> wx_line example_lib (JObj [(ustr ''weather'', JObj [(ustr ''conditionsDescription'', JStr (ustr ''Clear''))])])
     = Inr (JStr (ustr ''Clear''))
   \<and> wx_line example_lib (JObj []) = Inr (JStr [])"
proof -
  let ?t = "(ustr ''temperatureCelsius'', JFloat 21)"
  let ?d = "(ustr ''conditionsDescription'', JStr (ustr ''Clear''))"
  have f: "format_1f example_lib (JFloat 21) = Inr (ustr ''21.0'')" by (simp add: example_lib_def)
  have c: "ustr ''Clear'' \<noteq> []" by (simp add: ustr_def)
  have g: "dict_get (JObj [(ustr ''weather'', JObj kvs)]) (ustr ''weather'') (JObj []) = Inr (JObj kvs)" for kvs
    by (simp add: dict_get_def)
  have g0: "dict_get (JObj []) (ustr ''weather'') (JObj []) = Inr (JObj [])"
    by (simp add: dict_get_def)
  have m1: "map_of [?t, ?d] (ustr ''temperatureCelsius'') = Some (JFloat 21)
      \<and> map_of [?t, ?d] (ustr ''conditionsDescription'') = Some (JStr (ustr ''Clear''))"
    by (simp add: ustr_def)
  have m2: "map_of [?t] (ustr ''temperatureCelsius'') = Some (JFloat 21)
      \<and> map_of [?t] (ustr ''conditionsDescription'') = None"
    by (simp add: ustr_def)
  have m3: "map_of [?d] (ustr ''temperatureCelsius'') = None
      \<and> map_of [?d] (ustr ''conditionsDescription'') = Some (JStr (ustr ''Clear''))"
    by (simp add: ustr_def)
  have w1: "wx_line example_lib (JObj [(ustr ''weather'', JObj [?t, ?d])])
      = Inr (JStr (ustr ''21.0'' @ [176] @ ustr ''C, '' @ ustr ''Clear''))"
    using weather_line [OF g, of "[?t, ?d]" "JFloat 21" example_lib "ustr ''21.0''" "ustr ''Clear''"] m1 f c
    by simp
  have w2: "wx_line example_lib (JObj [(ustr ''weather'', JObj [?t])])
      = Inr (JStr (ustr ''21.0'' @ [176] @ ustr ''C''))"
    using weather_line [OF g, of "[?t]" "JFloat 21" example_lib "ustr ''21.0''" "ustr ''Clear''"] m2 f
    by simp
  have w3: "wx_line example_lib (JObj [(ustr ''weather'', JObj [?d])]) = Inr (JStr (ustr ''Clear''))"
    using weather_line [OF g, of "[?d]" "JFloat 21" example_lib "ustr ''21.0''" "ustr ''Clear''"] m3 c
    by simp
  have w4: "wx_line example_lib (JObj []) = Inr (JStr [])"
    using weather_line [OF g0, of "JFloat 21" example_lib "ustr ''21.0''" "ustr ''Clear''"]
    by simp
  have "ustr ''C, '' @ ustr ''Clear'' = ustr ''C, Clear''" by (simp add: ustr_def)
  then show ?thesis using w1 w2 w3 w4 by simp
qed


section \<open>The location link\<close>

text \<open>
  Claim C6. When the converter emits a location link for an entry, the latitude and the
  longitude are both present (neither is missing or \<open>null\<close>), and the text of the link is
  the non-empty strings among place name, locality name and country, in this order, with
  a comma and a space between them. When the latitude or the longitude is absent, the
  location line is empty, whatever the other fields hold.
\<close>

theorem location_link:
  assumes "dict_get entry (ustr ''location'') (JObj []) = Inr loc"
    and "location_html lib entry = Inr html"
  shows "\<exists>lat lng place locality country.
      dict_get loc (ustr ''latitude'') JNull = Inr lat
    \<and> dict_get loc (ustr ''longitude'') JNull = Inr lng
    \<and> dict_get loc (ustr ''placeName'') (JStr []) = Inr place
    \<and> dict_get loc (ustr ''localityName'') (JStr []) = Inr locality
    \<and> dict_get loc (ustr ''country'') (JStr []) = Inr country
    \<and> (html \<noteq> [] \<longrightarrow>
          lat \<noteq> JNull \<and> lng \<noteq> JNull
          \<and> html = ustr ''<p class=\"muted-text\">''
              @ ustr ''<p><i class=\"bi bi-geo-alt-fill text-danger\"></i> ''
              @ ustr ''<a href=\"'' @ (ustr ''https://www.google.com/maps?q='' @ fstr lib lat
                    @ ustr '','' @ fstr lib lng) @ ustr ''\" target=\"_blank\">''
              @ intercalate (ustr '', '')
                  (filter (\<lambda>s. s \<noteq> []) [text_of place, text_of locality, text_of country])
              @ ustr ''</a></p>'')
    \<and> (lat = JNull \<or> lng = JNull \<longrightarrow> html = [])"
proof -
  from assms obtain lat lng place locality country where
    lat: "dict_get loc (ustr ''latitude'') JNull = Inr lat"
    and lng: "dict_get loc (ustr ''longitude'') JNull = Inr lng"
    and place: "dict_get loc (ustr ''placeName'') (JStr []) = Inr place"
    and locality: "dict_get loc (ustr ''localityName'') (JStr []) = Inr locality"
    and country: "dict_get loc (ustr ''country'') (JStr []) = Inr country"
    and body: "(if truthy lat \<and> truthy lng then
         bind (join_strs (ustr '', '') (filter truthy [place, locality, country]))
           (\<lambda>location_text.
              let maps_url = ustr ''https://www.google.com/maps?q='' @ fstr lib lat
                    @ ustr '','' @ fstr lib lng
              in Inr (ustr ''<p class=\"muted-text\">''
                    @ ustr ''<p><i class=\"bi bi-geo-alt-fill text-danger\"></i> ''
                    @ ustr ''<a href=\"'' @ maps_url @ ustr ''\" target=\"_blank\">''
                    @ location_text @ ustr ''</a></p>''))
       else Inr []) = Inr html"
    unfolding location_html_def bind_Inr_iff by auto
  have empty: "html = []" if "lat = JNull \<or> lng = JNull"
    using that body by auto
  have link: "lat \<noteq> JNull \<and> lng \<noteq> JNull
          \<and> html = ustr ''<p class=\"muted-text\">''
              @ ustr ''<p><i class=\"bi bi-geo-alt-fill text-danger\"></i> ''
              @ ustr ''<a href=\"'' @ (ustr ''https://www.google.com/maps?q='' @ fstr lib lat
                    @ ustr '','' @ fstr lib lng) @ ustr ''\" target=\"_blank\">''
              @ intercalate (ustr '', '')
                  (filter (\<lambda>s. s \<noteq> []) [text_of place, text_of locality, text_of country])
              @ ustr ''</a></p>''" if ne: "html \<noteq> []"
  proof -
    have t: "truthy lat \<and> truthy lng" using body ne by (auto split: if_splits)
    then obtain location_text where
      j: "join_strs (ustr '', '') (filter truthy [place, locality, country]) = Inr location_text"
      and h: "html = ustr ''<p class=\"muted-text\">''
                    @ ustr ''<p><i class=\"bi bi-geo-alt-fill text-danger\"></i> ''
                    @ ustr ''<a href=\"'' @ (ustr ''https://www.google.com/maps?q='' @ fstr lib lat
                    @ ustr '','' @ fstr lib lng) @ ustr ''\" target=\"_blank\">''
                    @ location_text @ ustr ''</a></p>''"
      using body by (auto simp add: bind_Inr_iff Let_def)
    have "location_text = intercalate (ustr '', '') (map text_of (filter truthy [place, locality, country]))"
      and "\<forall>v \<in> set (filter truthy [place, locality, country]). \<exists>s. v = JStr s"
      using join_strs_intercalate [OF j] by blast+
    then have "location_text = intercalate (ustr '', '')
        (filter (\<lambda>s. s \<noteq> []) (map text_of [place, locality, country]))"
      using truthy_texts [of "[place, locality, country]"] by simp
    then show ?thesis using t h truthy_not_null by auto
  qed
  show ?thesis using lat lng place locality country empty link by blast
qed

theorem location_link_witness:
  "dict_get (JObj [(ustr ''location'', JObj [(ustr ''latitude'', JFloat 48.86),
        (ustr ''longitude'', JFloat 2.34), (ustr ''placeName'', JStr (ustr ''Louvre'')),
        (ustr ''localityName'', JStr []), (ustr ''country'', JStr (ustr ''France''))])])
      (ustr ''location'') (JObj [])
     = Inr (JObj [(ustr ''latitude'', JFloat 48.86),
        (ustr ''longitude'', JFloat 2.34), (ustr ''placeName'', JStr (ustr ''Louvre'')),
        (ustr ''localityName'', JStr []), (ustr ''country'', JStr (ustr ''France''))])
   \<and> location_html example_lib
       (JObj [(ustr ''location'', JObj [(ustr ''latitude'', JFloat 48.86),
        (ustr ''longitude'', JFloat 2.34), (ustr ''placeName'', JStr (ustr ''Louvre'')),
        (ustr ''localityName'', JStr []), (ustr ''country'', JStr (ustr ''France''))])])
     = Inr (ustr ''<p class=\"muted-text\"><p><i class=\"bi bi-geo-alt-fill text-danger\"></i> ''
          @ ustr ''<a href=\"https://www.google.com/maps?q=48.86,2.34\" target=\"_blank\">''
          @ ustr ''Louvre, France</a></p>'')
   \<and> dict_get (JObj [(ustr ''location'', JObj [(ustr ''placeName'', JStr (ustr ''Louvre'')),
        (ustr ''country'', JStr (ustr ''France''))])]) (ustr ''location'') (JObj [])
     = Inr (JObj [(ustr ''placeName'', JStr (ustr ''Louvre'')), (ustr ''country'', JStr (ustr ''France''))])
   \<and> location_html example_lib
       (JObj [(ustr ''location'', JObj [(ustr ''placeName'', JStr (ustr ''Louvre'')),
        (ustr ''country'', JStr (ustr ''France''))])])
     = Inr []"
proof -
  let ?l1 = "JObj [(ustr ''latitude'', JFloat 48.86),
        (ustr ''longitude'', JFloat 2.34), (ustr ''placeName'', JStr (ustr ''Louvre'')),
        (ustr ''localityName'', JStr []), (ustr ''country'', JStr (ustr ''France''))]"
  let ?l2 = "JObj [(ustr ''placeName'', JStr (ustr ''Louvre'')), (ustr ''country'', JStr (ustr ''France''))]"
  have g1: "dict_get (JObj [(ustr ''location'', ?l1)]) (ustr ''location'') (JObj []) = Inr ?l1"
    by (simp add: dict_get_def)
  have g2: "dict_get (JObj [(ustr ''location'', ?l2)]) (ustr ''location'') (JObj []) = Inr ?l2"
    by (simp add: dict_get_def)
  have h1: "location_html example_lib (JObj [(ustr ''location'', ?l1)])
     = Inr (ustr ''<p class=\"muted-text\"><p><i class=\"bi bi-geo-alt-fill text-danger\"></i> ''
          @ ustr ''<a href=\"https://www.google.com/maps?q=48.86,2.34\" target=\"_blank\">''
          @ ustr ''Louvre, France</a></p>'')"
    by (simp add: location_html_def dict_get_def fstr_def example_lib_def ustr_def bind_def)
  have h2: "location_html example_lib (JObj [(ustr ''location'', ?l2)]) = Inr []"
    by (simp add: location_html_def dict_get_def ustr_def bind_def)
  show ?thesis
    using location_link [OF g1 h1] location_link [OF g2 h2] g1 g2 h1 h2 by simp
qed


section \<open>The photos of an entry\<close>

text \<open>
  Claim C8. For a photo reference the identifier is the content hash \<open>md5\<close> when that is
  present (it holds a value that is true: not \<open>null\<close>, not the empty string), and the generic
  \<open>identifier\<close> otherwise. With an identifier \<open>name\<close> the loop goes on with, appended to
  \<open>media_html\<close>, the photo element for the first of \<open>name.jpg\<close>, \<open>name.jpeg\<close>, \<open>name.png\<close>
  that exists in the photo directory, and with nothing appended when none exists. With no
  identifier at all the loop goes on with \<open>media_html\<close> as it was.
\<close>

theorem photo_resolution:
  assumes "dict_get photo (ustr ''md5'') JNull = Inr md5"
    and "dict_get photo (ustr ''identifier'') JNull = Inr ident"
  shows "media_filename photo = Inr (if truthy md5 then md5 else ident)
    \<and> (media_filename photo = Inr (JStr name) \<and> name \<noteq> [] \<longrightarrow>
          photos_loop lib photos_dir (photo # rest) media_html =
            photos_loop lib photos_dir rest
              (media_html @
                 (case find (\<lambda>ext. path_exists lib (path_join lib photos_dir (name @ ext)))
                         [ustr ''.jpg'', ustr ''.jpeg'', ustr ''.png''] of
                    None \<Rightarrow> []
                  | Some ext \<Rightarrow> [photo_html lib (path_join lib photos_dir (name @ ext))])))
    \<and> (\<not> truthy md5 \<and> \<not> truthy ident \<longrightarrow>
          photos_loop lib photos_dir (photo # rest) media_html =
            photos_loop lib photos_dir rest media_html)"
proof (intro conjI impI)
  show f: "media_filename photo = Inr (if truthy md5 then md5 else ident)"
    using assms by (simp add: media_filename_def)
  {
    assume n: "media_filename photo = Inr (JStr name) \<and> name \<noteq> []"
    let ?found = "find (\<lambda>ext. path_exists lib (path_join lib photos_dir (name @ ext)))
                         [ustr ''.jpg'', ustr ''.jpeg'', ustr ''.png'']"
    have fe: "first_existing lib photos_dir name photo_exts =
        map_option (\<lambda>ext. (path_join lib photos_dir (name @ ext), ())) ?found"
      unfolding photo_exts_map by (rule first_existing_find)
    show "photos_loop lib photos_dir (photo # rest) media_html =
            photos_loop lib photos_dir rest
              (media_html @ (case ?found of None \<Rightarrow> []
                  | Some ext \<Rightarrow> [photo_html lib (path_join lib photos_dir (name @ ext))]))"
    proof (cases ?found)
      case None
      then show ?thesis using n fe by simp
    next
      case (Some ext)
      then show ?thesis using n fe by simp
    qed
  }
  {
    assume "\<not> truthy md5 \<and> \<not> truthy ident"
    then show "photos_loop lib photos_dir (photo # rest) media_html =
            photos_loop lib photos_dir rest media_html"
      using f by simp
  }
qed

theorem photo_resolution_witness:
  "dict_get (JObj [(ustr ''md5'', JStr (ustr ''abc'')), (ustr ''identifier'', JStr (ustr ''zzz''))])
      (ustr ''md5'') JNull = Inr (JStr (ustr ''abc''))
   \<and> dict_get (JObj [(ustr ''md5'', JStr (ustr ''abc'')), (ustr ''identifier'', JStr (ustr ''zzz''))])
      (ustr ''identifier'') JNull = Inr (JStr (ustr ''zzz''))
   \<and> media_filename (JObj [(ustr ''md5'', JStr (ustr ''abc'')), (ustr ''identifier'', JStr (ustr ''zzz''))])
       = Inr (JStr (ustr ''abc''))
   \<and> find (\<lambda>ext. path_exists example_lib (path_join example_lib (ustr ''photos'') (ustr ''abc'' @ ext)))
         [ustr ''.jpg'', ustr ''.jpeg'', ustr ''.png''] = Some (ustr ''.png'')
   \<and> photos_loop example_lib (ustr ''photos'')
        [JObj [(ustr ''md5'', JStr (ustr ''abc'')), (ustr ''identifier'', JStr (ustr ''zzz''))]] []
       = Inr [photo_html example_lib (ustr ''photos/abc.png'')]
   \<and> dict_get (JObj []) (ustr ''md5'') JNull = Inr JNull
   \<and> dict_get (JObj []) (ustr ''identifier'') JNull = Inr JNull
   \<and> photos_loop example_lib (ustr ''photos'') [JObj []] [] = Inr []"
proof -
  let ?p = "JObj [(ustr ''md5'', JStr (ustr ''abc'')), (ustr ''identifier'', JStr (ustr ''zzz''))]"
  have m: "dict_get ?p (ustr ''md5'') JNull = Inr (JStr (ustr ''abc''))"
    by (simp add: dict_get_def)
  have i: "dict_get ?p (ustr ''identifier'') JNull = Inr (JStr (ustr ''zzz''))"
    by (simp add: dict_get_def ustr_def)
  have m0: "dict_get (JObj []) (ustr ''md5'') JNull = Inr JNull" by (simp add: dict_get_def)
  have i0: "dict_get (JObj []) (ustr ''identifier'') JNull = Inr JNull" by (simp add: dict_get_def)
  have t: "truthy (JStr (ustr ''abc'')) \<and> ustr ''abc'' \<noteq> []" by (simp add: ustr_def)
  have f: "find (\<lambda>ext. path_exists example_lib (path_join example_lib (ustr ''photos'') (ustr ''abc'' @ ext)))
         [ustr ''.jpg'', ustr ''.jpeg'', ustr ''.png''] = Some (ustr ''.png'')"
    by (simp add: example_lib_def ustr_def)
  have j: "path_join example_lib (ustr ''photos'') (ustr ''abc'' @ ustr ''.png'') = ustr ''photos/abc.png''"
    by (simp add: example_lib_def ustr_def)
  show ?thesis
    using photo_resolution [OF m i, of "ustr ''abc''" example_lib "ustr ''photos''" "[]" "[]"]
      photo_resolution [OF m0 i0, of "ustr ''abc''" example_lib "ustr ''photos''" "[]" "[]"]
      m i m0 i0 t f j
    by simp
qed


end
